theory Spec2Isabelle
  imports Complex_Main "HOL-Library.AList" "HOL-Library.Multiset"
begin

section \<open>Segments (parquet-segment.js)\<close>

text \<open>
  A \<open>ParquetSegment\<close> carries an id, a name, a byte range and optional structural
  indices. The payload fields (\<open>metadata\<close>, \<open>physicalMetadata\<close>, \<open>logicalMetadata\<close>,
  \<open>description\<close>) are display data that no offset, id or index computation reads; they
  are left out of the record. Byte offsets are mathematical integers.
\<close>

record segment =
  seg_id :: string
  seg_name :: string
  seg_start :: int
  seg_end :: int
  rowGroupIndex :: "int option"
  chunkIndex :: "int option"
  pageIndex :: "int option"
  columnPath :: "string option"

text \<open>The errors thrown by \<open>ParquetSegment._validate\<close>.\<close>

datatype error =
    NegativeStart int
  | EndBeforeStart int int
  | NegativeIndex string int

definition bad_index :: "int option \<Rightarrow> bool" where
  "bad_index i = (case i of None \<Rightarrow> False | Some v \<Rightarrow> v < 0)"

text \<open>
  \<open>_validate\<close>: the checks in the order of the source. (\<open>_validateRequired\<close> cannot
  fail here: the record always has id, name, start and end.)
\<close>

definition validate :: "segment \<Rightarrow> error + segment" where
  "validate s =
     (if seg_start s < 0 then Inl (NegativeStart (seg_start s))
      else if seg_end s < seg_start s then Inl (EndBeforeStart (seg_end s) (seg_start s))
      else if bad_index (rowGroupIndex s) then Inl (NegativeIndex ''rowGroupIndex'' (the (rowGroupIndex s)))
      else if bad_index (chunkIndex s) then Inl (NegativeIndex ''chunkIndex'' (the (chunkIndex s)))
      else if bad_index (pageIndex s) then Inl (NegativeIndex ''pageIndex'' (the (pageIndex s)))
      else Inr s)"

text \<open>\<open>new ParquetSegment({id, name, start, end})\<close> with no optional field.\<close>

definition ParquetSegment :: "string \<Rightarrow> string \<Rightarrow> int \<Rightarrow> int \<Rightarrow> error + segment" where
  "ParquetSegment i n s e =
     validate \<lparr>seg_id = i, seg_name = n, seg_start = s, seg_end = e,
               rowGroupIndex = None, chunkIndex = None, pageIndex = None, columnPath = None\<rparr>"

text \<open>The getter \<open>size\<close>: \<open>Math.max(0, end - start)\<close>.\<close>

definition seg_size :: "segment \<Rightarrow> int" where
  "seg_size s = max 0 (seg_end s - seg_start s)"

text \<open>
  A loop that constructs one segment per element and pushes it: the first constructor
  that throws aborts the loop.
\<close>

fun sequenceE :: "(error + 'a) list \<Rightarrow> error + 'a list" where
  "sequenceE [] = Inr []"
| "sequenceE (Inl e # _) = Inl e"
| "sequenceE (Inr x # rest) = (case sequenceE rest of Inl e \<Rightarrow> Inl e | Inr xs \<Rightarrow> Inr (x # xs))"

definition bindE :: "error + 'a \<Rightarrow> ('a \<Rightarrow> error + 'b) \<Rightarrow> error + 'b" where
  "bindE m f = (case m of Inl e \<Rightarrow> Inl e | Inr x \<Rightarrow> f x)"

text \<open>\<open>Math.min(...xs)\<close> and \<open>Math.max(...xs)\<close>; every caller passes a non-empty list.\<close>

definition Math_min :: "'a::linorder list \<Rightarrow> 'a" where
  "Math_min xs = Min (set xs)"

definition Math_max :: "'a::linorder list \<Rightarrow> 'a" where
  "Math_max xs = Max (set xs)"

text \<open>\<open>x || d\<close> on an optional number: an absent field and 0 are both falsy.\<close>

definition or_default :: "nat option \<Rightarrow> nat \<Rightarrow> nat" where
  "or_default x d = (case x of None \<Rightarrow> d | Some v \<Rightarrow> if v = 0 then d else v)"

section \<open>The JSON payload\<close>

text \<open>
  The payload of the upstream tool. A field the builder tests for presence is an
  \<open>option\<close>; byte offsets and lengths are natural numbers, as positions in a file are.
  \<open>json_length\<close> stands for \<open>JSON.stringify(fileData.metadata.metadata).length\<close>.
  An object read with \<open>Object.entries\<close> is an association list in iteration order.
\<close>

record page =
  page_start_offset :: nat
  header_size :: "nat option"
  compressed_page_size :: "nat option"

record column_chunk =
  path_in_schema :: string
  start_offset :: nat
  total_byte_size :: nat
  dictionary_page :: "page option"
  data_pages :: "page list option"
  index_pages :: "page list option"

record column_meta =
  total_compressed_size :: "nat option"
  total_uncompressed_size :: "nat option"
  column_index_offset :: "nat option"
  column_index_length :: "nat option"

record row_group =
  rg_byte_length :: "nat option"
  rg_column_chunks :: "(string \<times> column_meta) list option"

datatype schema_element =
  SchemaElement (element_type: string) (se_byte_length: "nat option")
    (se_start_offset: "nat option") (children: "(string \<times> schema_element) list option")

record kv_entry =
  kv_key :: string
  kv_start_offset :: "nat option"
  kv_byte_length :: "nat option"

record file_metadata =
  schema_root :: "schema_element option"
  row_groups :: "row_group list option"
  key_value_metadata :: "kv_entry list option"
  json_length :: nat

record physical_metadata =
  md_total_byte_size :: "nat option"
  md_start_offset :: "nat option"
  md_metadata :: "file_metadata option"

record file_data =
  filesize :: nat
  column_chunks :: "column_chunk list option"
  metadata :: "physical_metadata option"

text \<open>\<open>fileData.metadata?.metadata\<close>.\<close>

definition inner_metadata :: "file_data \<Rightarrow> file_metadata option" where
  "inner_metadata fileData = (case metadata fileData of None \<Rightarrow> None | Some pm \<Rightarrow> md_metadata pm)"

text \<open>\<open>metadata?.row_groups\<close>.\<close>

definition row_groups_of :: "file_data \<Rightarrow> row_group list option" where
  "row_groups_of fileData = (case inner_metadata fileData of None \<Rightarrow> None | Some m \<Rightarrow> row_groups m)"

section \<open>Hierarchy builder: overview\<close>

text \<open>\<open>ParquetConstants.FILE_STRUCTURE\<close>.\<close>

definition MAGIC_SIZE :: int where "MAGIC_SIZE = 4"
definition FOOTER_SIZE :: int where "FOOTER_SIZE = 8"

text \<open>
  \<open>fileData.metadata?.total_byte_size || (fileData.metadata?.metadata ?
  JSON.stringify(fileData.metadata.metadata).length : 1024)\<close>.
\<close>

definition metadataSize :: "file_data \<Rightarrow> nat" where
  "metadataSize fileData =
     (let fallback = (case inner_metadata fileData of None \<Rightarrow> 1024 | Some m \<Rightarrow> json_length m)
      in case metadata fileData of
           None \<Rightarrow> fallback
         | Some pm \<Rightarrow> or_default (md_total_byte_size pm) fallback)"

text \<open>\<open>fileData.column_chunks && fileData.column_chunks.length > 0\<close>.\<close>

definition has_chunk_data :: "file_data \<Rightarrow> bool" where
  "has_chunk_data fileData = (case column_chunks fileData of None \<Rightarrow> False | Some cs \<Rightarrow> length cs > 0)"

definition chunk_end :: "column_chunk \<Rightarrow> int" where
  "chunk_end c = int (start_offset c) + int (total_byte_size c)"

definition rowGroupsStart :: "file_data \<Rightarrow> int" where
  "rowGroupsStart fileData =
     (if has_chunk_data fileData
      then Math_min (map (\<lambda>c. int (start_offset c)) (the (column_chunks fileData)))
      else MAGIC_SIZE)"

definition rowGroupsEnd :: "file_data \<Rightarrow> int" where
  "rowGroupsEnd fileData =
     (if has_chunk_data fileData
      then Math_max (map chunk_end (the (column_chunks fileData)))
      else int (filesize fileData) - int (metadataSize fileData) - FOOTER_SIZE)"

definition buildOverviewSegments :: "file_data \<Rightarrow> error + segment list" where
  "buildOverviewSegments fileData =
     sequenceE
       [ParquetSegment ''header_magic'' ''MAGIC'' 0 MAGIC_SIZE,
        ParquetSegment ''rowgroups'' ''ROWGROUPS'' (rowGroupsStart fileData) (rowGroupsEnd fileData),
        ParquetSegment ''metadata'' ''METADATA'' (rowGroupsEnd fileData)
          (int (filesize fileData) - FOOTER_SIZE),
        ParquetSegment ''footer'' ''FOOTER'' (int (filesize fileData) - FOOTER_SIZE)
          (int (filesize fileData) - MAGIC_SIZE),
        ParquetSegment ''footer_magic'' ''MAGIC'' (int (filesize fileData) - MAGIC_SIZE)
          (int (filesize fileData))]"

section \<open>Hierarchy builder: row groups, column chunks, pages\<close>

text \<open>Decimal rendering of an array index inside a template string.\<close>

fun string_of_nat :: "nat \<Rightarrow> string" where
  "string_of_nat n =
     (if n < 10 then [char_of (48 + n)]
      else string_of_nat (n div 10) @ [char_of (48 + n mod 10)])"

declare string_of_nat.simps [simp del]

text \<open>
  \<open>_getChunksForRowGroup\<close>: \<open>numRowGroups = row_groups?.length || 1\<close>,
  \<open>chunksPerRowGroup = Math.ceil(column_chunks.length / numRowGroups)\<close>, and the slice
  \<open>[startIndex, endIndex)\<close> of the flat chunk list (\<open>slice\<close> is empty when the start
  is not before the end).
\<close>

definition numRowGroups :: "file_data \<Rightarrow> nat" where
  "numRowGroups fileData =
     (case row_groups_of fileData of None \<Rightarrow> 1 | Some rgs \<Rightarrow> if length rgs = 0 then 1 else length rgs)"

definition all_chunks :: "file_data \<Rightarrow> column_chunk list" where
  "all_chunks fileData = (case column_chunks fileData of None \<Rightarrow> [] | Some cs \<Rightarrow> cs)"

definition chunksPerRowGroup :: "file_data \<Rightarrow> nat" where
  "chunksPerRowGroup fileData =
     (length (all_chunks fileData) + numRowGroups fileData - 1) div numRowGroups fileData"

definition getChunksForRowGroup :: "file_data \<Rightarrow> nat \<Rightarrow> column_chunk list" where
  "getChunksForRowGroup fileData rgIndex =
     (let startIndex = rgIndex * chunksPerRowGroup fileData;
          endIndex = min (startIndex + chunksPerRowGroup fileData) (length (all_chunks fileData))
      in take (endIndex - startIndex) (drop startIndex (all_chunks fileData)))"

text \<open>
  \<open>buildRowGroupSegments\<close>: one segment per row group that has chunks, from the
  smallest start offset to the largest end of its chunks.
\<close>

definition rowGroupSegment :: "file_data \<Rightarrow> nat \<Rightarrow> (error + segment) list" where
  "rowGroupSegment fileData index =
     (let rowGroupChunks = getChunksForRowGroup fileData index
      in if length rowGroupChunks = 0 then []
         else [validate
                \<lparr>seg_id = ''rowgroup_'' @ string_of_nat index,
                 seg_name = ''RG'' @ string_of_nat index,
                 seg_start = Math_min (map (\<lambda>c. int (start_offset c)) rowGroupChunks),
                 seg_end = Math_max (map chunk_end rowGroupChunks),
                 rowGroupIndex = Some (int index), chunkIndex = None, pageIndex = None,
                 columnPath = None\<rparr>])"

definition buildRowGroupSegments :: "file_data \<Rightarrow> error + segment list" where
  "buildRowGroupSegments fileData =
     (case row_groups_of fileData of
        None \<Rightarrow> Inr []
      | Some rgs \<Rightarrow> sequenceE (concat (map (rowGroupSegment fileData) [0..<length rgs])))"

text \<open>
  \<open>buildColumnChunkSegments\<close>: one segment per chunk of the row group's block, the id
  numbered by the position in the block, then a stable sort by start offset.
\<close>

definition columnChunkSegment :: "nat \<Rightarrow> nat \<times> column_chunk \<Rightarrow> error + segment" where
  "columnChunkSegment rgIndex ic =
     (case ic of (chIndex, chunk) \<Rightarrow>
        validate
          \<lparr>seg_id = ''chunk_'' @ string_of_nat rgIndex @ ''_'' @ string_of_nat chIndex,
           seg_name = path_in_schema chunk,
           seg_start = int (start_offset chunk),
           seg_end = int (start_offset chunk) + int (total_byte_size chunk),
           rowGroupIndex = Some (int rgIndex), chunkIndex = Some (int chIndex),
           pageIndex = None, columnPath = Some (path_in_schema chunk)\<rparr>)"

definition buildColumnChunkSegments :: "file_data \<Rightarrow> nat \<Rightarrow> error + segment list" where
  "buildColumnChunkSegments fileData rgIndex =
     bindE (sequenceE (map (columnChunkSegment rgIndex)
                        (enumerate 0 (getChunksForRowGroup fileData rgIndex))))
       (\<lambda>segments. Inr (sort_key seg_start segments))"

text \<open>
  \<open>buildPageSegments\<close>: the dictionary page if present, then the data pages, then the
  index pages; a page extends over \<open>header_size + compressed_page_size\<close>.
\<close>

definition pageSegment :: "string \<Rightarrow> string \<Rightarrow> nat \<Rightarrow> nat \<Rightarrow> nat \<times> page \<Rightarrow> error + segment" where
  "pageSegment idPrefix namePrefix rgIndex chIndex ip =
     (case ip of (pgIndex, page) \<Rightarrow>
        let totalPageSize = or_default (header_size page) 0 + or_default (compressed_page_size page) 0
        in validate
          \<lparr>seg_id = idPrefix @ string_of_nat rgIndex @ ''_'' @ string_of_nat chIndex
                     @ ''_'' @ string_of_nat pgIndex,
           seg_name = namePrefix @ string_of_nat pgIndex,
           seg_start = int (page_start_offset page),
           seg_end = int (page_start_offset page) + int totalPageSize,
           rowGroupIndex = Some (int rgIndex), chunkIndex = Some (int chIndex),
           pageIndex = Some (int pgIndex), columnPath = None\<rparr>)"

definition dictPageSegment :: "nat \<Rightarrow> nat \<Rightarrow> page \<Rightarrow> error + segment" where
  "dictPageSegment rgIndex chIndex dictPage =
     (let totalPageSize = or_default (header_size dictPage) 0
                          + or_default (compressed_page_size dictPage) 0
      in validate
          \<lparr>seg_id = ''page_dict_'' @ string_of_nat rgIndex @ ''_'' @ string_of_nat chIndex,
           seg_name = ''DICT'',
           seg_start = int (page_start_offset dictPage),
           seg_end = int (page_start_offset dictPage) + int totalPageSize,
           rowGroupIndex = Some (int rgIndex), chunkIndex = Some (int chIndex),
           pageIndex = Some 0, columnPath = None\<rparr>)"

definition pages_of :: "page list option \<Rightarrow> page list" where
  "pages_of ps = (case ps of None \<Rightarrow> [] | Some l \<Rightarrow> l)"

definition buildPageSegments :: "file_data \<Rightarrow> nat \<Rightarrow> nat \<Rightarrow> error + segment list" where
  "buildPageSegments fileData rgIndex chIndex =
     (let rowGroupChunks = getChunksForRowGroup fileData rgIndex
      in if chIndex < length rowGroupChunks
         then (let chunk = rowGroupChunks ! chIndex
               in sequenceE
                    ((case dictionary_page chunk of
                        None \<Rightarrow> []
                      | Some dictPage \<Rightarrow> [dictPageSegment rgIndex chIndex dictPage])
                     @ map (pageSegment ''page_data_'' ''DATA'' rgIndex chIndex)
                         (enumerate 0 (pages_of (data_pages chunk)))
                     @ map (pageSegment ''page_index_'' ''IDX'' rgIndex chIndex)
                         (enumerate 0 (pages_of (index_pages chunk)))))
         else Inr [])"

section \<open>Hierarchy builder: metadata structure\<close>

text \<open>A loop over a list that threads the cache being filled and stops at the first throw.\<close>

fun foldE :: "('a \<Rightarrow> 'b \<Rightarrow> error + 'b) \<Rightarrow> 'a list \<Rightarrow> 'b \<Rightarrow> error + 'b" where
  "foldE f [] acc = Inr acc"
| "foldE f (x # xs) acc = (case f x acc of Inl e \<Rightarrow> Inl e | Inr acc' \<Rightarrow> foldE f xs acc')"

lemma foldE_cong [fundef_cong]:
  "xs = ys \<Longrightarrow> acc = acc' \<Longrightarrow> (\<And>x a. x \<in> set ys \<Longrightarrow> f x a = g x a) \<Longrightarrow>
   foldE f xs acc = foldE g ys acc'"
proof (induction ys arbitrary: xs acc acc')
  case Nil
  then show ?case by simp
next
  case (Cons y ys)
  then show ?case by (auto split: sum.splits)
qed

text \<open>\<open>cache[key] = value\<close> on an object with string keys: an existing key keeps its place.\<close>

definition assign :: "string \<Rightarrow> 'v \<Rightarrow> (string \<times> 'v) list \<Rightarrow> (string \<times> 'v) list" where
  "assign k v obj = AList.update k v obj"

text \<open>
  \<open>_calculateSchemaLength\<close>: the element's own \<open>byte_length || 0\<close> plus the lengths of
  all its children, recursively.
\<close>

fun calculateSchemaLength :: "schema_element \<Rightarrow> nat" where
  "calculateSchemaLength (SchemaElement t bl so ch) =
     or_default bl 0 +
     (case ch of None \<Rightarrow> 0
      | Some cs \<Rightarrow> sum_list (map (\<lambda>nc. calculateSchemaLength (snd nc)) cs))"

text \<open>\<open>_extractColumnIndicesInfo\<close>.\<close>

record index_info =
  info_path :: string
  info_row_group :: nat
  info_type :: string
  info_offset :: nat
  info_size :: nat

definition truthy :: "nat option \<Rightarrow> bool" where
  "truthy x = (case x of None \<Rightarrow> False | Some v \<Rightarrow> v \<noteq> 0)"

definition columnIndexInfo :: "nat \<Rightarrow> string \<times> column_meta \<Rightarrow> index_info list" where
  "columnIndexInfo rgIndex pm =
     (case pm of (cPath, columnMeta) \<Rightarrow>
        (if truthy (column_index_offset columnMeta) \<and> truthy (column_index_length columnMeta)
         then [\<lparr>info_path = cPath, info_row_group = rgIndex, info_type = ''column_index'',
                 info_offset = the (column_index_offset columnMeta),
                 info_size = the (column_index_length columnMeta)\<rparr>]
         else [])
        @ (if truthy (column_index_offset columnMeta) \<and> truthy (column_index_length columnMeta)
           then [\<lparr>info_path = cPath, info_row_group = rgIndex, info_type = ''offset_index'',
                   info_offset = the (column_index_offset columnMeta)
                                 + the (column_index_length columnMeta),
                   info_size = max 50 ((the (column_index_length columnMeta) * 3) div 10)\<rparr>]
           else []))"

definition rg_entries :: "row_group \<Rightarrow> (string \<times> column_meta) list" where
  "rg_entries rowGroup = (case rg_column_chunks rowGroup of None \<Rightarrow> [] | Some ccs \<Rightarrow> ccs)"

definition extractColumnIndicesInfo :: "file_data \<Rightarrow> index_info list" where
  "extractColumnIndicesInfo fileData =
     (case row_groups_of fileData of
        None \<Rightarrow> []
      | Some rgs \<Rightarrow>
          concat (map (\<lambda>ir. concat (map (columnIndexInfo (fst ir)) (rg_entries (snd ir))))
                    (enumerate 0 rgs)))"

text \<open>\<open>physicalMetadata?.start_offset || 0\<close>.\<close>

definition phys_start_offset :: "file_data \<Rightarrow> nat" where
  "phys_start_offset fileData =
     (case metadata fileData of None \<Rightarrow> 0 | Some pm \<Rightarrow> or_default (md_start_offset pm) 0)"

text \<open>
  \<open>buildMetadataStructureSegments\<close>: schema, row-group metadata, column indices and
  key-value metadata, each present only when its data is, laid out from a running
  \<open>currentOffset\<close>, then sorted by start.
\<close>

definition buildMetadataStructureSegments :: "file_data \<Rightarrow> error + segment list" where
  "buildMetadataStructureSegments fileData =
     (case inner_metadata fileData of
        None \<Rightarrow> Inr []
      | Some md \<Rightarrow>
         (let offset0 = phys_start_offset fileData;
              schemaStart = (case schema_root md of None \<Rightarrow> offset0
                             | Some sr \<Rightarrow> or_default (se_start_offset sr) offset0);
              schemaLength = (case schema_root md of None \<Rightarrow> 0
                              | Some sr \<Rightarrow> calculateSchemaLength sr);
              schemaSegs = (case schema_root md of None \<Rightarrow> []
                            | Some sr \<Rightarrow> [ParquetSegment ''schema_root'' ''SCHEMA''
                                           (int schemaStart) (int schemaStart + int schemaLength)]);
              offset1 = schemaStart + schemaLength;
              rgs = (case row_groups md of None \<Rightarrow> [] | Some l \<Rightarrow> l);
              totalRowGroupMetadataSize = sum_list (map (\<lambda>rg. or_default (rg_byte_length rg) 200) rgs);
              rgSegs = (if length rgs > 0
                        then [ParquetSegment ''row_groups_metadata'' ''ROW GROUP METADATA''
                                (int offset1) (int offset1 + int totalRowGroupMetadataSize)]
                        else []);
              offset2 = (if length rgs > 0 then offset1 + totalRowGroupMetadataSize else offset1);
              columnIndicesInfo = extractColumnIndicesInfo fileData;
              totalIndicesSize = sum_list (map info_size columnIndicesInfo);
              idxSegs = (if length columnIndicesInfo > 0
                         then [ParquetSegment ''column_indices'' ''INDICES''
                                 (int offset2) (int offset2 + int totalIndicesSize)]
                         else []);
              offset3 = (if length columnIndicesInfo > 0 then offset2 + totalIndicesSize else offset2);
              kvs = (case key_value_metadata md of None \<Rightarrow> [] | Some l \<Rightarrow> l);
              totalKvSize = sum_list (map (\<lambda>entry. or_default (kv_byte_length entry) 0) kvs);
              kvSegs = (if length kvs > 0
                        then [ParquetSegment ''key_value_metadata'' ''KEY-VALUE METADATA''
                                (int offset3) (int offset3 + int totalKvSize)]
                        else [])
          in bindE (sequenceE (schemaSegs @ rgSegs @ idxSegs @ kvSegs))
               (\<lambda>segments. Inr (sort_key seg_start segments))))"

text \<open>
  \<open>buildRowGroupMetadataSegments\<close>: one segment per row group, laid out from
  \<open>(start_offset || 0) + 600\<close>, under the parent id \<open>row_groups_metadata\<close>.
\<close>

fun rowGroupMetaSegments :: "nat \<Rightarrow> nat \<Rightarrow> row_group list \<Rightarrow> (error + segment) list" where
  "rowGroupMetaSegments index currentOffset [] = []"
| "rowGroupMetaSegments index currentOffset (rowGroup # rest) =
     (let rgSize = or_default (rg_byte_length rowGroup) 200
      in validate
           \<lparr>seg_id = ''rowgroup_meta_'' @ string_of_nat index,
            seg_name = ''ROW GROUP '' @ string_of_nat index,
            seg_start = int currentOffset,
            seg_end = int currentOffset + int rgSize,
            rowGroupIndex = Some (int index), chunkIndex = None, pageIndex = None,
            columnPath = None\<rparr>
         # rowGroupMetaSegments (Suc index) (currentOffset + rgSize) rest)"

definition buildRowGroupMetadataSegments :: "file_data \<Rightarrow> error + (string \<times> segment list) list" where
  "buildRowGroupMetadataSegments fileData =
     (case row_groups_of fileData of
        None \<Rightarrow> Inr []
      | Some rgs \<Rightarrow>
          bindE (sequenceE (rowGroupMetaSegments 0 (phys_start_offset fileData + 600) rgs))
            (\<lambda>segments. Inr (assign ''row_groups_metadata'' segments [])))"

text \<open>\<open>buildColumnIndexSegments\<close>, under the parent id \<open>column_indices\<close>.\<close>

definition toUpperCase :: "string \<Rightarrow> string" where
  "toUpperCase s =
     map (\<lambda>c. if 97 \<le> (of_char c :: nat) \<and> (of_char c :: nat) \<le> 122
               then char_of ((of_char c :: nat) - 32) else c) s"

definition indexSegment :: "index_info \<Rightarrow> error + segment" where
  "indexSegment info =
     validate
       \<lparr>seg_id = info_type info @ ''_'' @ string_of_nat (info_row_group info) @ ''_'' @ info_path info,
        seg_name = info_path info @ '' (RG'' @ string_of_nat (info_row_group info) @ '') ''
                   @ toUpperCase (info_type info),
        seg_start = int (info_offset info),
        seg_end = int (info_offset info) + int (info_size info),
        rowGroupIndex = None, chunkIndex = None, pageIndex = None, columnPath = None\<rparr>"

definition buildColumnIndexSegments :: "file_data \<Rightarrow> error + (string \<times> segment list) list" where
  "buildColumnIndexSegments fileData =
     (let indicesInfo = extractColumnIndicesInfo fileData
      in if length indicesInfo = 0 then Inr []
         else bindE (sequenceE (map indexSegment indicesInfo))
                (\<lambda>segments. Inr (assign ''column_indices'' (sort_key seg_start segments) [])))"

text \<open>
  \<open>buildKeyValueMetadataSegments\<close>, under the parent id \<open>key_value_metadata\<close>; the id
  replaces every character of the key outside \<open>[a-zA-Z0-9]\<close> by an underscore.
\<close>

definition isAlnum :: "char \<Rightarrow> bool" where
  "isAlnum c =
     (let n = (of_char c :: nat)
      in (97 \<le> n \<and> n \<le> 122) \<or> (65 \<le> n \<and> n \<le> 90) \<or> (48 \<le> n \<and> n \<le> 57))"

definition kvSegment :: "nat \<times> kv_entry \<Rightarrow> error + segment" where
  "kvSegment ie =
     (case ie of (index, entry) \<Rightarrow>
        validate
          \<lparr>seg_id = ''kv_'' @ string_of_nat index @ ''_''
                     @ map (\<lambda>c. if isAlnum c then c else CHR ''_'') (kv_key entry),
           seg_name = kv_key entry,
           seg_start = int (or_default (kv_start_offset entry) 0),
           seg_end = int (or_default (kv_start_offset entry) 0)
                     + int (or_default (kv_byte_length entry) 0),
           rowGroupIndex = None, chunkIndex = None, pageIndex = None, columnPath = None\<rparr>)"

definition buildKeyValueMetadataSegments :: "file_data \<Rightarrow> error + (string \<times> segment list) list" where
  "buildKeyValueMetadataSegments fileData =
     (case inner_metadata fileData of
        None \<Rightarrow> Inr []
      | Some md \<Rightarrow>
          (case key_value_metadata md of
             None \<Rightarrow> Inr []
           | Some kvs \<Rightarrow>
               bindE (sequenceE (map kvSegment (enumerate 0 kvs)))
                 (\<lambda>segments. Inr (assign ''key_value_metadata'' (sort_key seg_start segments) []))))"

text \<open>
  \<open>buildColumnChunkMetadataSegments\<close>: for every row group \<open>i\<close>, under the parent id
  \<open>rowgroup_meta_i\<close>, one segment per entry of its \<open>column_chunks\<close> map, laid out from
  offset 0; a size is \<open>total_compressed_size || total_uncompressed_size || 100\<close>.
\<close>

fun columnMetaSegments :: "nat \<Rightarrow> nat \<Rightarrow> nat \<Rightarrow> (string \<times> column_meta) list \<Rightarrow> (error + segment) list" where
  "columnMetaSegments rgIndex chIndex currentOffset [] = []"
| "columnMetaSegments rgIndex chIndex currentOffset ((cPath, columnMeta) # rest) =
     (let chunkSize = or_default (total_compressed_size columnMeta)
                        (or_default (total_uncompressed_size columnMeta) 100)
      in validate
           \<lparr>seg_id = ''column_meta_'' @ string_of_nat rgIndex @ ''_'' @ string_of_nat chIndex,
            seg_name = cPath,
            seg_start = int currentOffset,
            seg_end = int currentOffset + int chunkSize,
            rowGroupIndex = Some (int rgIndex), chunkIndex = Some (int chIndex),
            pageIndex = None, columnPath = Some cPath\<rparr>
         # columnMetaSegments rgIndex (Suc chIndex) (currentOffset + chunkSize) rest)"

definition buildColumnChunkMetadataSegments :: "file_data \<Rightarrow> error + (string \<times> segment list) list" where
  "buildColumnChunkMetadataSegments fileData =
     (case row_groups_of fileData of
        None \<Rightarrow> Inr []
      | Some rgs \<Rightarrow>
          foldE (\<lambda>ir cache.
                   bindE (sequenceE (columnMetaSegments (fst ir) 0 0 (rg_entries (snd ir))))
                     (\<lambda>segments. Inr (assign (''rowgroup_meta_'' @ string_of_nat (fst ir)) segments cache)))
            (enumerate 0 rgs) [])"

text \<open>
  \<open>buildSchemaElementSegments\<close>: one segment per child of a schema group; a group child
  is as long as its whole subtree, a leaf as its \<open>byte_length || 50\<close>.
\<close>

definition schemaElementSegment :: "string \<Rightarrow> string \<times> schema_element \<Rightarrow> error + segment" where
  "schemaElementSegment parentId nc =
     (case nc of (name, child) \<Rightarrow>
        let childStart = or_default (se_start_offset child) 0;
            childLength = (if element_type child = ''group'' then calculateSchemaLength child
                           else or_default (se_byte_length child) 50)
        in ParquetSegment (parentId @ ''_'' @ name) name
             (int childStart) (int childStart + int childLength))"

definition buildSchemaElementSegments :: "schema_element \<Rightarrow> string \<Rightarrow> error + segment list" where
  "buildSchemaElementSegments schemaGroup parentId =
     (case children schemaGroup of
        None \<Rightarrow> Inr []
      | Some cs \<Rightarrow>
          bindE (sequenceE (map (schemaElementSegment parentId) cs))
            (\<lambda>segments. Inr (sort_key seg_start segments)))"

text \<open>
  \<open>_buildAllNestedSchemaElements\<close>: for every child that is a group with children,
  store its element segments under \<open>parentId_name\<close> and descend into it.
\<close>

fun buildAllNestedSchemaElements ::
  "schema_element \<Rightarrow> string \<Rightarrow> (string \<times> segment list) list \<Rightarrow> error + (string \<times> segment list) list" where
  "buildAllNestedSchemaElements (SchemaElement t bl so ch) parentId cache =
     (case ch of
        None \<Rightarrow> Inr cache
      | Some cs \<Rightarrow>
          foldE (\<lambda>nc cache'.
                   if element_type (snd nc) = ''group'' \<and> children (snd nc) \<noteq> None
                   then bindE (buildSchemaElementSegments (snd nc) (parentId @ ''_'' @ fst nc))
                          (\<lambda>segments.
                             buildAllNestedSchemaElements (snd nc) (parentId @ ''_'' @ fst nc)
                               (assign (parentId @ ''_'' @ fst nc) segments cache'))
                   else Inr cache')
            cs cache)"

definition buildAllSchemaElementSegments :: "file_data \<Rightarrow> error + (string \<times> segment list) list" where
  "buildAllSchemaElementSegments fileData =
     (case inner_metadata fileData of
        None \<Rightarrow> Inr []
      | Some md \<Rightarrow>
          (case schema_root md of
             None \<Rightarrow> Inr []
           | Some sr \<Rightarrow>
               bindE (buildSchemaElementSegments sr ''schema_root'')
                 (\<lambda>segments.
                    buildAllNestedSchemaElements sr ''schema_root''
                      (assign ''schema_root'' segments []))))"

section \<open>Hierarchy builder: the cache\<close>

text \<open>
  The hierarchy cache. \<open>columnchunks\<close> is keyed by the row-group index, \<open>pages\<close> by the
  string \<open>rowGroupIndex_chunkIndex\<close>, the other maps by the parent segment's id.
\<close>

record hierarchy_cache =
  overview :: "segment list"
  rowgroups :: "segment list"
  columnchunks :: "(nat \<times> segment list) list"
  pages :: "(string \<times> segment list) list"
  metadatastructure :: "segment list"
  schemaelements :: "(string \<times> segment list) list"
  rowgroupelements :: "(string \<times> segment list) list"
  indexelements :: "(string \<times> segment list) list"
  keyvaluemetadata :: "(string \<times> segment list) list"
  columnchunkmetadata :: "(string \<times> segment list) list"

text \<open>
  The two loops at the end of \<open>buildAll\<close>: the chunks of every row group, then, for every
  stored bucket and every position in it, the pages under the key
  \<open>rowGroupIndex_chunkIndex\<close> (\<open>parseInt\<close> of the bucket's key gives the index back).
\<close>

definition buildAllColumnChunks :: "file_data \<Rightarrow> error + (nat \<times> segment list) list" where
  "buildAllColumnChunks fileData =
     (case row_groups_of fileData of
        None \<Rightarrow> Inr []
      | Some rgs \<Rightarrow>
          sequenceE (map (\<lambda>index. bindE (buildColumnChunkSegments fileData index)
                                    (\<lambda>chunks. Inr (index, chunks)))
                       [0..<length rgs]))"

definition buildAllPages ::
  "file_data \<Rightarrow> (nat \<times> segment list) list \<Rightarrow> error + (string \<times> segment list) list" where
  "buildAllPages fileData cc =
     foldE (\<lambda>rc cache.
              foldE (\<lambda>chIndex cache'.
                       bindE (buildPageSegments fileData (fst rc) chIndex)
                         (\<lambda>ps. Inr (assign (string_of_nat (fst rc) @ ''_'' @ string_of_nat chIndex)
                                       ps cache')))
                [0..<length (snd rc)] cache)
       cc []"

definition buildAll :: "file_data \<Rightarrow> error + hierarchy_cache" where
  "buildAll fileData =
     bindE (buildOverviewSegments fileData) (\<lambda>ov.
     bindE (buildRowGroupSegments fileData) (\<lambda>rg.
     bindE (buildMetadataStructureSegments fileData) (\<lambda>ms.
     bindE (buildAllSchemaElementSegments fileData) (\<lambda>se.
     bindE (buildRowGroupMetadataSegments fileData) (\<lambda>re.
     bindE (buildColumnIndexSegments fileData) (\<lambda>ie.
     bindE (buildKeyValueMetadataSegments fileData) (\<lambda>kv.
     bindE (buildColumnChunkMetadataSegments fileData) (\<lambda>cm.
     bindE (buildAllColumnChunks fileData) (\<lambda>cc.
     bindE (buildAllPages fileData cc) (\<lambda>pg.
       Inr \<lparr>overview = ov, rowgroups = rg, columnchunks = cc, pages = pg,
            metadatastructure = ms, schemaelements = se, rowgroupelements = re,
            indexelements = ie, keyvaluemetadata = kv, columnchunkmetadata = cm\<rparr>))))))))))"

section \<open>Hierarchy builder: lookups\<close>

text \<open>\<open>findSegment\<close>: the first segment with the id, over the levels in the order of the source.\<close>

definition findIn :: "string \<Rightarrow> segment list \<Rightarrow> segment option" where
  "findIn segmentId segs = find (\<lambda>seg. seg_id seg = segmentId) segs"

text \<open>A \<open>for\<close> loop over \<open>Object.values(buckets)\<close> that returns the first hit.\<close>

fun findInBuckets :: "string \<Rightarrow> segment list list \<Rightarrow> segment option" where
  "findInBuckets segmentId [] = None"
| "findInBuckets segmentId (elements # rest) =
     (case findIn segmentId elements of
        Some found \<Rightarrow> Some found
      | None \<Rightarrow> findInBuckets segmentId rest)"

definition orElse :: "'a option \<Rightarrow> 'a option \<Rightarrow> 'a option" where
  "orElse a b = (case a of Some x \<Rightarrow> Some x | None \<Rightarrow> b)"

definition findSegment :: "hierarchy_cache \<Rightarrow> string \<Rightarrow> segment option" where
  "findSegment hierarchyCache segmentId =
     orElse (findIn segmentId (overview hierarchyCache))
    (orElse (findIn segmentId (metadatastructure hierarchyCache))
    (orElse (findInBuckets segmentId (map snd (schemaelements hierarchyCache)))
    (orElse (findInBuckets segmentId (map snd (rowgroupelements hierarchyCache)))
    (orElse (findInBuckets segmentId (map snd (indexelements hierarchyCache)))
    (orElse (findInBuckets segmentId (map snd (keyvaluemetadata hierarchyCache)))
    (orElse (findIn segmentId (rowgroups hierarchyCache))
    (orElse (findInBuckets segmentId (map snd (columnchunks hierarchyCache)))
            (findInBuckets segmentId (map snd (pages hierarchyCache))))))))))"

section \<open>Hierarchy builder: getSegmentsForLevel\<close>

text \<open>String helpers: \<open>startsWith\<close>, \<open>includes\<close>, \<open>split\<close> on one character.\<close>

definition startsWith :: "string \<Rightarrow> string \<Rightarrow> bool" where
  "startsWith s p = (take (length p) s = p)"

fun includesStr :: "string \<Rightarrow> string \<Rightarrow> bool" where
  "includesStr [] p = (p = [])"
| "includesStr (c # cs) p = (startsWith (c # cs) p \<or> includesStr cs p)"

fun splitStr :: "char \<Rightarrow> string \<Rightarrow> string list" where
  "splitStr sep [] = [[]]"
| "splitStr sep (c # cs) =
     (if c = sep then [] # splitStr sep cs
      else (case splitStr sep cs of [] \<Rightarrow> [[c]] | p # ps \<Rightarrow> (c # p) # ps))"

text \<open>\<open>parts[i]\<close>: \<open>undefined\<close> past the end.\<close>

definition at_index :: "'a list \<Rightarrow> nat \<Rightarrow> 'a option" where
  "at_index xs i = (if i < length xs then Some (xs ! i) else None)"

text \<open>
  \<open>parseInt\<close> without a radix: leading white space, an optional sign, an optional
  \<open>0x\<close> prefix, then the longest run of digits; \<open>NaN\<close> (here \<open>None\<close>) when there is no
  digit. \<open>parseInt(undefined)\<close> is \<open>NaN\<close>.
\<close>

definition isWhiteSpace :: "char \<Rightarrow> bool" where
  "isWhiteSpace c = ((of_char c :: nat) \<in> {9, 10, 11, 12, 13, 32})"

definition decimalDigit :: "char \<Rightarrow> nat option" where
  "decimalDigit c =
     (let n = (of_char c :: nat) in if 48 \<le> n \<and> n \<le> 57 then Some (n - 48) else None)"

definition hexDigit :: "char \<Rightarrow> nat option" where
  "hexDigit c =
     (let n = (of_char c :: nat)
      in if 48 \<le> n \<and> n \<le> 57 then Some (n - 48)
         else if 97 \<le> n \<and> n \<le> 102 then Some (n - 87)
         else if 65 \<le> n \<and> n \<le> 70 then Some (n - 55)
         else None)"

fun parseDigits :: "(char \<Rightarrow> nat option) \<Rightarrow> nat \<Rightarrow> string \<Rightarrow> nat option \<Rightarrow> nat option" where
  "parseDigits digit radix [] acc = acc"
| "parseDigits digit radix (c # cs) acc =
     (case digit c of
        None \<Rightarrow> acc
      | Some d \<Rightarrow> parseDigits digit radix cs
                    (Some (case acc of None \<Rightarrow> d | Some a \<Rightarrow> a * radix + d)))"

definition parseInt :: "string option \<Rightarrow> int option" where
  "parseInt input =
     (case input of
        None \<Rightarrow> None
      | Some str \<Rightarrow>
          (let s1 = dropWhile isWhiteSpace str;
               negative = startsWith s1 ''-'';
               s2 = (if startsWith s1 ''-'' \<or> startsWith s1 ''+'' then drop 1 s1 else s1);
               hex = (startsWith s2 ''0x'' \<or> startsWith s2 ''0X'');
               digits = (if hex then parseDigits hexDigit 16 (drop 2 s2) None
                         else parseDigits decimalDigit 10 s2 None)
           in map_option (\<lambda>n. if negative then - int n else int n) digits))"

text \<open>A number inside a template string (\<open>NaN\<close> prints as \<open>NaN\<close>).\<close>

definition number_string :: "int option \<Rightarrow> string" where
  "number_string n =
     (case n of
        None \<Rightarrow> ''NaN''
      | Some i \<Rightarrow> if i < 0 then ''-'' @ string_of_nat (nat (- i)) else string_of_nat (nat i))"

text \<open>
  What a level lookup returns: an array of segments, or, when the parent id names a
  member that the bucket object inherits from \<open>Object.prototype\<close>, that member (a
  function or the prototype object, never an array).
\<close>

datatype level_result = Segments "segment list" | InheritedMember string

definition object_prototype_members :: "string list" where
  "object_prototype_members =
     [''constructor'', ''__proto__'', ''hasOwnProperty'', ''isPrototypeOf'',
      ''propertyIsEnumerable'', ''toLocaleString'', ''toString'', ''valueOf'',
      ''__defineGetter__'', ''__defineSetter__'', ''__lookupGetter__'', ''__lookupSetter__'']"

text \<open>
  \<open>if (parentId && bucket[parentId]) return bucket[parentId]; return [];\<close> (\<open>null\<close> and
  the empty string are falsy; every array is truthy).
\<close>

definition lookupBucket :: "(string \<times> segment list) list \<Rightarrow> string option \<Rightarrow> level_result" where
  "lookupBucket bucket parentId =
     (case parentId of
        None \<Rightarrow> Segments []
      | Some p \<Rightarrow>
          if p = [] then Segments []
          else (case map_of bucket p of
                  Some segs \<Rightarrow> Segments segs
                | None \<Rightarrow> if p \<in> set object_prototype_members then InheritedMember p
                          else Segments []))"

text \<open>\<open>bucket[key] || []\<close> for a key that is no member of \<open>Object.prototype\<close>.\<close>

definition lookupOrEmpty :: "('k \<times> segment list) list \<Rightarrow> 'k \<Rightarrow> segment list" where
  "lookupOrEmpty bucket k = (case map_of bucket k of None \<Rightarrow> [] | Some segs \<Rightarrow> segs)"

text \<open>\<open>hierarchyCache.columnchunks[rowGroupIndex] || []\<close> for a parsed index.\<close>

definition lookupRowGroup :: "(nat \<times> segment list) list \<Rightarrow> int option \<Rightarrow> segment list" where
  "lookupRowGroup bucket rgIndex =
     (case rgIndex of
        None \<Rightarrow> []
      | Some i \<Rightarrow> if i < 0 then [] else lookupOrEmpty bucket (nat i))"

definition getSegmentsForLevel :: "hierarchy_cache \<Rightarrow> string \<Rightarrow> string option \<Rightarrow> level_result" where
  "getSegmentsForLevel hierarchyCache level parentId =
     (if level = ''overview'' then Segments (overview hierarchyCache)
      else if level = ''metadatastructure'' then Segments (metadatastructure hierarchyCache)
      else if level = ''schemaelements'' then lookupBucket (schemaelements hierarchyCache) parentId
      else if level = ''rowgroupelements'' then lookupBucket (rowgroupelements hierarchyCache) parentId
      else if level = ''indexelements'' then lookupBucket (indexelements hierarchyCache) parentId
      else if level = ''keyvaluemetadata'' then lookupBucket (keyvaluemetadata hierarchyCache) parentId
      else if level = ''rowgroups'' then Segments (rowgroups hierarchyCache)
      else if level = ''columnchunks'' then
        (case parentId of
           None \<Rightarrow> Segments []
         | Some p \<Rightarrow>
             if p \<noteq> [] \<and> startsWith p ''rowgroup_'' \<and> \<not> includesStr p ''meta''
             then Segments (lookupRowGroup (columnchunks hierarchyCache)
                              (parseInt (at_index (splitStr CHR ''_'' p) 1)))
             else Segments [])
      else if level = ''columnchunkmetadata'' then
        (case parentId of
           None \<Rightarrow> Segments []
         | Some p \<Rightarrow>
             if p \<noteq> [] \<and> startsWith p ''rowgroup_meta_''
             then Segments (lookupOrEmpty (columnchunkmetadata hierarchyCache) p)
             else Segments [])
      else if level = ''pages'' then
        (case parentId of
           None \<Rightarrow> Segments []
         | Some p \<Rightarrow>
             if p \<noteq> [] \<and> includesStr p ''chunk_''
             then (let parts = splitStr CHR ''_'' p;
                       rgIndex = parseInt (at_index parts 1);
                       chIndex = parseInt (at_index parts 2);
                       k = number_string rgIndex @ ''_'' @ number_string chIndex
                   in Segments (lookupOrEmpty (pages hierarchyCache) k))
             else Segments [])
      else Segments [])"

section \<open>Navigation controller (SvgByteVisualizer)\<close>

text \<open>
  The controller's state: the stack of displayed levels, the map from level index to the
  selected segment id, and the selection path. Of a level only the name, the parent
  segment id and the segments are state; layout and SVG nodes are rendering. The
  controller reads the hierarchy through the segment's getter \<open>childLevelName\<close> and
  through \<open>analyzer.getSegmentsForLevel\<close>; both are parameters here, so every result
  holds for every hierarchy.
\<close>

record level =
  level_name :: string
  parentSegmentId :: "string option"
  level_segments :: "segment list"

record visualizer =
  levels :: "level list"
  selectedSegments :: "nat \<Rightarrow> string option"
  selectionPath :: "segment list"

record analyzer =
  childLevelName :: "segment \<Rightarrow> string option"
  segmentsForLevel :: "string \<Rightarrow> string \<Rightarrow> segment list"

text \<open>\<open>segmentHasChildren\<close>.\<close>

definition segmentHasChildren :: "analyzer \<Rightarrow> segment \<Rightarrow> bool" where
  "segmentHasChildren an segment =
     (case childLevelName an segment of
        None \<Rightarrow> False
      | Some name \<Rightarrow> length (segmentsForLevel an name (seg_id segment)) > 0)"

text \<open>\<open>addLevel\<close>, \<open>removeLevelsFrom\<close> and the two switches, as changes of the stack.\<close>

definition newLevel :: "string \<Rightarrow> string \<Rightarrow> segment list \<Rightarrow> level" where
  "newLevel name parentId segs =
     \<lparr>level_name = name, parentSegmentId = Some parentId, level_segments = segs\<rparr>"

definition addLevel :: "string \<Rightarrow> string \<Rightarrow> segment list \<Rightarrow> level list \<Rightarrow> level list" where
  "addLevel name parentId segs lvls = lvls @ [newLevel name parentId segs]"

definition removeLevelsFrom :: "nat \<Rightarrow> level list \<Rightarrow> level list" where
  "removeLevelsFrom index lvls = (if index \<ge> length lvls then lvls else take index lvls)"

definition switchChildLevels :: "nat \<Rightarrow> string \<Rightarrow> string \<Rightarrow> segment list \<Rightarrow> level list \<Rightarrow> level list" where
  "switchChildLevels childIndex name parentId segs lvls =
     take childIndex lvls @ [newLevel name parentId segs]"

definition switchMultipleLevels :: "nat \<Rightarrow> string \<Rightarrow> string \<Rightarrow> segment list \<Rightarrow> level list \<Rightarrow> level list" where
  "switchMultipleLevels childIndex name parentId segs lvls =
     take childIndex lvls @ [newLevel name parentId segs]"

text \<open>\<open>handleSegmentClick(segment, levelIndex)\<close>.\<close>

definition handleSegmentClick :: "analyzer \<Rightarrow> visualizer \<Rightarrow> segment \<Rightarrow> nat \<Rightarrow> visualizer" where
  "handleSegmentClick an vis segment levelIndex =
     (let isCurrentlySelected = (selectedSegments vis levelIndex = Some (seg_id segment));
          cleared = (\<lambda>i. if levelIndex \<le> i \<and> i < length (levels vis) then None
                          else selectedSegments vis i);
          trimmed = take levelIndex (selectionPath vis);
          selected = (if \<not> isCurrentlySelected then cleared(levelIndex \<mapsto> seg_id segment)
                      else cleared);
          path = (if \<not> isCurrentlySelected then trimmed @ [segment] else trimmed);
          hasChildLevels = (length (levels vis) > levelIndex + 1);
          willAddNewChild = (\<not> isCurrentlySelected \<and> segmentHasChildren an segment);
          lvls =
            (if willAddNewChild then
               (let name = the (childLevelName an segment);
                    childSegments = segmentsForLevel an name (seg_id segment)
                in if length childSegments > 0 then
                     (if hasChildLevels then
                        (if length (levels vis) - (levelIndex + 1) = 1
                         then switchChildLevels (levelIndex + 1) name (seg_id segment)
                                childSegments (levels vis)
                         else switchMultipleLevels (levelIndex + 1) name (seg_id segment)
                                childSegments (levels vis))
                      else addLevel name (seg_id segment) childSegments (levels vis))
                   else levels vis)
             else if hasChildLevels then removeLevelsFrom (levelIndex + 1) (levels vis)
             else levels vis)
      in \<lparr>levels = lvls, selectedSegments = selected, selectionPath = path\<rparr>)"

text \<open>\<open>handleKeyDown\<close>: Escape, Backspace; any other key changes nothing.\<close>

definition handleKeyDown :: "visualizer \<Rightarrow> string \<Rightarrow> visualizer" where
  "handleKeyDown vis k =
     (if k = ''Escape''
      then \<lparr>levels = removeLevelsFrom 1 (levels vis), selectedSegments = (\<lambda>i. None),
            selectionPath = []\<rparr>
      else if k = ''Backspace''
      then (if length (levels vis) > 1
            then vis\<lparr>levels := removeLevelsFrom (length (levels vis) - 1) (levels vis)\<rparr>
            else vis)
      else vis)"

text \<open>
  The state after \<open>initWithData\<close> has drawn the root level, and the user's events. A
  click can only hit a segment of a displayed level.
\<close>

definition initWithData :: "segment list \<Rightarrow> visualizer" where
  "initWithData overviewSegments =
     \<lparr>levels = [\<lparr>level_name = ''overview'', parentSegmentId = None,
                  level_segments = overviewSegments\<rparr>],
      selectedSegments = (\<lambda>i. None), selectionPath = []\<rparr>"

datatype event = Click segment nat | Key string

fun handle :: "analyzer \<Rightarrow> visualizer \<Rightarrow> event \<Rightarrow> visualizer" where
  "handle an vis (Click segment levelIndex) = handleSegmentClick an vis segment levelIndex"
| "handle an vis (Key k) = handleKeyDown vis k"

fun displayed :: "visualizer \<Rightarrow> event \<Rightarrow> bool" where
  "displayed vis (Click segment levelIndex) =
     (levelIndex < length (levels vis) \<and> segment \<in> set (level_segments (levels vis ! levelIndex)))"
| "displayed vis (Key k) = True"

fun run :: "analyzer \<Rightarrow> visualizer \<Rightarrow> event list \<Rightarrow> visualizer" where
  "run an vis [] = vis"
| "run an vis (e # es) = run an (handle an vis e) es"

fun possible :: "analyzer \<Rightarrow> visualizer \<Rightarrow> event list \<Rightarrow> bool" where
  "possible an vis [] = True"
| "possible an vis (e # es) = (displayed vis e \<and> possible an (handle an vis e) es)"

text \<open>
  The invariants. \<open>parent_linked\<close>: the root is displayed, and every level below the
  root belongs to the path segment one index above it, which has children.
  \<open>hasDisplayedChild\<close>: the path segment at an index has its child level displayed.
  \<open>in_sync\<close>: every path segment with children has its child level displayed, and the
  selection map holds exactly the ids of the path.
\<close>

definition parent_linked :: "analyzer \<Rightarrow> visualizer \<Rightarrow> bool" where
  "parent_linked an vis =
     (levels vis \<noteq> [] \<and>
      (\<forall>j. Suc j < length (levels vis) \<longrightarrow>
            j < length (selectionPath vis)
          \<and> parentSegmentId (levels vis ! Suc j) = Some (seg_id (selectionPath vis ! j))
          \<and> segmentHasChildren an (selectionPath vis ! j)))"

definition hasDisplayedChild :: "visualizer \<Rightarrow> nat \<Rightarrow> bool" where
  "hasDisplayedChild vis j =
     (Suc j < length (levels vis) \<and> j < length (selectionPath vis)
      \<and> parentSegmentId (levels vis ! Suc j) = Some (seg_id (selectionPath vis ! j)))"

definition in_sync :: "analyzer \<Rightarrow> visualizer \<Rightarrow> bool" where
  "in_sync an vis =
     ((\<forall>j < length (selectionPath vis).
          segmentHasChildren an (selectionPath vis ! j) \<longrightarrow> Suc j < length (levels vis))
      \<and> (\<forall>i. selectedSegments vis i =
               (if i < length (selectionPath vis) then Some (seg_id (selectionPath vis ! i))
                else None))
      \<and> length (selectionPath vis) \<le> length (levels vis))"

section \<open>Layout calculator (segment-layout-calculator.js)\<close>

text \<open>
  Pixel arithmetic is over the reals here; the rounding of doubles is added in the next
  section. The one division whose divisor can be zero is
  \<open>segment.size / totalSize\<close>: when the span of the level is zero every size is zero as
  well (lemma \<open>zero_span_zero_sizes\<close>), the quotient is \<open>0 / 0\<close>, and the value is
  \<open>NaN\<close>. Widths are therefore numbers or \<open>NaN\<close>; a comparison with \<open>NaN\<close> is false
  and arithmetic on \<open>NaN\<close> gives \<open>NaN\<close>. The model follows the code for a positive
  container width and a positive \<open>LOG_SCALE_FACTOR\<close>.
\<close>

datatype jsnum = Num real | NaN

fun jlt :: "jsnum \<Rightarrow> jsnum \<Rightarrow> bool" where
  "jlt (Num a) (Num b) = (a < b)"
| "jlt _ _ = False"

fun jadd :: "jsnum \<Rightarrow> jsnum \<Rightarrow> jsnum" where
  "jadd (Num a) (Num b) = Num (a + b)"
| "jadd _ _ = NaN"

fun jsub :: "jsnum \<Rightarrow> jsnum \<Rightarrow> jsnum" where
  "jsub (Num a) (Num b) = Num (a - b)"
| "jsub _ _ = NaN"

fun jmul :: "jsnum \<Rightarrow> jsnum \<Rightarrow> jsnum" where
  "jmul (Num a) (Num b) = Num (a * b)"
| "jmul _ _ = NaN"

fun jdiv :: "jsnum \<Rightarrow> jsnum \<Rightarrow> jsnum" where
  "jdiv (Num a) (Num b) = (if b = 0 then NaN else Num (a / b))"
| "jdiv _ _ = NaN"

text \<open>\<open>xs.reduce((sum, x) => sum + x, 0)\<close>.\<close>

definition jsum :: "jsnum list \<Rightarrow> jsnum" where
  "jsum xs = foldl jadd (Num 0) xs"

text \<open>The fields of \<open>VisualizationConfig.LAYOUT\<close> that the width computation reads.\<close>

record layout_config =
  STARTING_BASELINE :: real
  MIN_SEGMENT_WIDTH :: real
  MAX_MIN_SEGMENT_WIDTH :: real
  LOG_SCALE_FACTOR :: real
  SEGMENT_MARGIN :: real
  LEVEL_HEIGHT :: real

definition LAYOUT :: layout_config where
  "LAYOUT =
     \<lparr>STARTING_BASELINE = 5, MIN_SEGMENT_WIDTH = 3, MAX_MIN_SEGMENT_WIDTH = 25,
      LOG_SCALE_FACTOR = 2, SEGMENT_MARGIN = 2, LEVEL_HEIGHT = 40\<rparr>"

text \<open>
  \<open>calculateLogarithmicMinWidths\<close>, in the steps of the source: the baseline
  \<open>min(STARTING_BASELINE || 5, containerWidth / n)\<close>, the sizes clamped to at least 1,
  the floor of one size on the logarithmic scale, and the four outcomes (uniform
  fallback, equal sizes, logarithmic floors scaled down, logarithmic floors).
\<close>

definition adjustedBaseline :: "segment list \<Rightarrow> real \<Rightarrow> layout_config \<Rightarrow> real" where
  "adjustedBaseline segments containerWidth config =
     (let startingBaseline = (if STARTING_BASELINE config = 0 then 5 else STARTING_BASELINE config)
      in min startingBaseline (containerWidth / real (length segments)))"

definition clampedSizes :: "segment list \<Rightarrow> real list" where
  "clampedSizes segments = map (\<lambda>s. max 1 (real_of_int (seg_size s))) segments"

definition logarithmicWidth :: "layout_config \<Rightarrow> real \<Rightarrow> real \<Rightarrow> real \<Rightarrow> real \<Rightarrow> real" where
  "logarithmicWidth config baseline logMinSize logMaxSize sz =
     (let logRange = logMaxSize - logMinSize;
          logSize = log 10 sz;
          logPosition = (logSize - logMinSize) / logRange;
          scaledPosition = logPosition powr (1 / LOG_SCALE_FACTOR config)
      in baseline + (MAX_MIN_SEGMENT_WIDTH config - baseline) * scaledPosition)"

definition logarithmicWidths :: "segment list \<Rightarrow> real \<Rightarrow> layout_config \<Rightarrow> real list" where
  "logarithmicWidths segments containerWidth config =
     map (logarithmicWidth config (adjustedBaseline segments containerWidth config)
            (log 10 (Math_min (clampedSizes segments)))
            (log 10 (Math_max (clampedSizes segments))))
       (clampedSizes segments)"

definition calculateLogarithmicMinWidths ::
  "segment list \<Rightarrow> int \<Rightarrow> real \<Rightarrow> layout_config \<Rightarrow> real list" where
  "calculateLogarithmicMinWidths segments tsize containerWidth config =
     (if adjustedBaseline segments containerWidth config < MIN_SEGMENT_WIDTH config
      then map (\<lambda>s. containerWidth / real (length segments)) segments
      else if Math_min (clampedSizes segments) = Math_max (clampedSizes segments)
      then map (\<lambda>s. adjustedBaseline segments containerWidth config) segments
      else
        (let totalLogarithmicWidth = sum_list (logarithmicWidths segments containerWidth config)
         in if totalLogarithmicWidth > containerWidth
            then map (\<lambda>width. width * (containerWidth / totalLogarithmicWidth))
                   (logarithmicWidths segments containerWidth config)
            else logarithmicWidths segments containerWidth config))"

text \<open>The working record of \<open>calculateSegmentWidths\<close> and the layout object it returns.\<close>

record segment_data =
  sd_segment :: segment
  naturalWidthPercent :: jsnum
  naturalWidthPixels :: jsnum
  finalWidthPercent :: jsnum
  finalWidthPixels :: jsnum
  isExpanded :: bool
  minWidth :: real

record segment_layout =
  lo_segment :: segment
  lo_x :: jsnum
  lo_y :: real
  lo_width :: jsnum
  lo_height :: real
  lo_widthPercent :: jsnum
  lo_isExpanded :: bool
  lo_naturalWidth :: jsnum
  lo_minWidth :: real

text \<open>The span of a level: \<open>maxEnd - minStart\<close>.\<close>

definition totalSize :: "segment list \<Rightarrow> int" where
  "totalSize segments = Math_max (map seg_end segments) - Math_min (map seg_start segments)"

text \<open>The initial record of a segment, with its natural proportional width.\<close>

definition initialData :: "int \<Rightarrow> real \<Rightarrow> segment \<times> real \<Rightarrow> segment_data" where
  "initialData tsize containerWidth sm =
     \<lparr>sd_segment = fst sm,
      naturalWidthPercent =
        jmul (jdiv (Num (real_of_int (seg_size (fst sm)))) (Num (real_of_int tsize))) (Num 100),
      naturalWidthPixels =
        jmul (jdiv (Num (real_of_int (seg_size (fst sm)))) (Num (real_of_int tsize)))
          (Num containerWidth),
      finalWidthPercent = Num 0, finalWidthPixels = Num 0, isExpanded = False,
      minWidth = snd sm\<rparr>"

text \<open>The first \<open>forEach\<close>: a segment narrower than its floor is expanded to the floor.\<close>

definition markExpanded :: "real \<Rightarrow> segment_data \<Rightarrow> segment_data" where
  "markExpanded containerWidth d =
     (let segmentMinWidthPercent = (minWidth d / containerWidth) * 100
      in if jlt (naturalWidthPixels d) (Num (minWidth d))
         then d\<lparr>isExpanded := True, finalWidthPercent := Num segmentMinWidthPercent,
                finalWidthPixels := Num (minWidth d)\<rparr>
         else d\<lparr>finalWidthPercent := naturalWidthPercent d,
                finalWidthPixels := naturalWidthPixels d\<rparr>)"

text \<open>The redistribution: non-expanded segments share what the expanded ones leave.\<close>

definition extraSpaceUsed :: "segment_data list \<Rightarrow> jsnum" where
  "extraSpaceUsed segmentData =
     jsum (map (\<lambda>d. jsub (finalWidthPercent d) (naturalWidthPercent d))
             (filter isExpanded segmentData))"

definition availableSpace :: "segment_data list \<Rightarrow> jsnum" where
  "availableSpace segmentData =
     jsub (Num 100) (jsum (map finalWidthPercent (filter isExpanded segmentData)))"

definition naturalSpaceForNonExpanded :: "segment_data list \<Rightarrow> jsnum" where
  "naturalSpaceForNonExpanded segmentData =
     jsum (map naturalWidthPercent (filter (\<lambda>d. \<not> isExpanded d) segmentData))"

definition rescale :: "jsnum \<Rightarrow> real \<Rightarrow> segment_data \<Rightarrow> segment_data" where
  "rescale scaleFactor containerWidth d =
     (if \<not> isExpanded d
      then d\<lparr>finalWidthPercent := jmul (naturalWidthPercent d) scaleFactor,
             finalWidthPixels :=
               jmul (jdiv (jmul (naturalWidthPercent d) scaleFactor) (Num 100))
                 (Num containerWidth)\<rparr>
      else d)"

definition redistribute :: "real \<Rightarrow> segment_data list \<Rightarrow> segment_data list" where
  "redistribute containerWidth segmentData =
     (if jlt (Num 0) (extraSpaceUsed segmentData)
      then (if jlt (Num 0) (naturalSpaceForNonExpanded segmentData)
            then map (rescale (jdiv (availableSpace segmentData)
                                 (naturalSpaceForNonExpanded segmentData))
                        containerWidth)
                   segmentData
            else segmentData)
      else segmentData)"

text \<open>\<open>calculateSegmentPositions\<close>: left to right, each segment after the one before.\<close>

fun calculateSegmentPositions :: "jsnum \<Rightarrow> layout_config \<Rightarrow> segment_data list \<Rightarrow> segment_layout list" where
  "calculateSegmentPositions currentLeft config [] = []"
| "calculateSegmentPositions currentLeft config (d # rest) =
     \<lparr>lo_segment = sd_segment d, lo_x = currentLeft, lo_y = SEGMENT_MARGIN config,
      lo_width = finalWidthPixels d,
      lo_height = LEVEL_HEIGHT config - 2 * SEGMENT_MARGIN config,
      lo_widthPercent = finalWidthPercent d, lo_isExpanded = isExpanded d,
      lo_naturalWidth = naturalWidthPixels d, lo_minWidth = minWidth d\<rparr>
     # calculateSegmentPositions (jadd currentLeft (finalWidthPixels d)) config rest"

definition segmentData :: "segment list \<Rightarrow> real \<Rightarrow> layout_config \<Rightarrow> segment_data list" where
  "segmentData segments containerWidth config =
     map (markExpanded containerWidth)
       (map (initialData (totalSize segments) containerWidth)
          (zip segments
             (calculateLogarithmicMinWidths segments (totalSize segments) containerWidth config)))"

definition calculateSegmentWidths :: "segment list \<Rightarrow> real \<Rightarrow> layout_config \<Rightarrow> segment_layout list" where
  "calculateSegmentWidths segments containerWidth config =
     (if length segments = 0 then []
      else calculateSegmentPositions (Num 0) config
             (redistribute containerWidth (segmentData segments containerWidth config)))"

text \<open>Adjacent segments touch: each one ends where the next one starts.\<close>

fun contiguous :: "segment list \<Rightarrow> bool" where
  "contiguous (a # b # rest) = (seg_end a = seg_start b \<and> contiguous (b # rest))"
| "contiguous _ = True"

definition ranges :: "segment list \<Rightarrow> (int \<times> int) list" where
  "ranges segs = map (\<lambda>s. (seg_start s, seg_end s)) segs"

section \<open>Layout calculator in rounded arithmetic\<close>

text \<open>
  JavaScript numbers are IEEE doubles: an arithmetic operation returns its exact result
  rounded to a double. The steps of \<open>calculateSegmentWidths\<close> are given here a second
  time with that rounding as a parameter \<open>fl\<close>, applied to the result of every addition,
  subtraction, multiplication and division, in the order in which the source evaluates
  them. Sizes and the span are integers and are not rounded. The array that
  \<open>calculateLogarithmicMinWidths\<close> returns enters as the parameter \<open>minWidths\<close>, whose
  entries are numbers or \<open>NaN\<close>. With the identity for \<open>fl\<close> these are the functions of
  the previous section.
\<close>

fun rounded :: "(real \<Rightarrow> real) \<Rightarrow> jsnum \<Rightarrow> jsnum" where
  "rounded fl (Num x) = Num (fl x)"
| "rounded fl NaN = NaN"

definition fadd :: "(real \<Rightarrow> real) \<Rightarrow> jsnum \<Rightarrow> jsnum \<Rightarrow> jsnum" where
  "fadd fl a b = rounded fl (jadd a b)"

definition fsub :: "(real \<Rightarrow> real) \<Rightarrow> jsnum \<Rightarrow> jsnum \<Rightarrow> jsnum" where
  "fsub fl a b = rounded fl (jsub a b)"

definition fmul :: "(real \<Rightarrow> real) \<Rightarrow> jsnum \<Rightarrow> jsnum \<Rightarrow> jsnum" where
  "fmul fl a b = rounded fl (jmul a b)"

definition fdiv :: "(real \<Rightarrow> real) \<Rightarrow> jsnum \<Rightarrow> jsnum \<Rightarrow> jsnum" where
  "fdiv fl a b = rounded fl (jdiv a b)"

text \<open>\<open>xs.reduce((sum, x) => sum + x, 0)\<close>, each partial sum rounded.\<close>

definition fsum :: "(real \<Rightarrow> real) \<Rightarrow> jsnum list \<Rightarrow> jsnum" where
  "fsum fl xs = foldl (fadd fl) (Num 0) xs"

record rounded_data =
  r_segment :: segment
  r_naturalWidthPercent :: jsnum
  r_naturalWidthPixels :: jsnum
  r_finalWidthPercent :: jsnum
  r_finalWidthPixels :: jsnum
  r_isExpanded :: bool
  r_minWidth :: jsnum

record rounded_layout =
  rl_segment :: segment
  rl_x :: jsnum
  rl_y :: real
  rl_width :: jsnum
  rl_height :: real
  rl_widthPercent :: jsnum
  rl_isExpanded :: bool
  rl_naturalWidth :: jsnum
  rl_minWidth :: jsnum

definition initialData_fl :: "(real \<Rightarrow> real) \<Rightarrow> int \<Rightarrow> real \<Rightarrow> segment \<times> jsnum \<Rightarrow> rounded_data" where
  "initialData_fl fl tsize containerWidth sm =
     \<lparr>r_segment = fst sm,
      r_naturalWidthPercent =
        fmul fl (fdiv fl (Num (real_of_int (seg_size (fst sm)))) (Num (real_of_int tsize)))
          (Num 100),
      r_naturalWidthPixels =
        fmul fl (fdiv fl (Num (real_of_int (seg_size (fst sm)))) (Num (real_of_int tsize)))
          (Num containerWidth),
      r_finalWidthPercent = Num 0, r_finalWidthPixels = Num 0, r_isExpanded = False,
      r_minWidth = snd sm\<rparr>"

definition markExpanded_fl :: "(real \<Rightarrow> real) \<Rightarrow> real \<Rightarrow> rounded_data \<Rightarrow> rounded_data" where
  "markExpanded_fl fl containerWidth d =
     (let segmentMinWidthPercent = fmul fl (fdiv fl (r_minWidth d) (Num containerWidth)) (Num 100)
      in if jlt (r_naturalWidthPixels d) (r_minWidth d)
         then d\<lparr>r_isExpanded := True, r_finalWidthPercent := segmentMinWidthPercent,
                r_finalWidthPixels := r_minWidth d\<rparr>
         else d\<lparr>r_finalWidthPercent := r_naturalWidthPercent d,
                r_finalWidthPixels := r_naturalWidthPixels d\<rparr>)"

definition extraSpaceUsed_fl :: "(real \<Rightarrow> real) \<Rightarrow> rounded_data list \<Rightarrow> jsnum" where
  "extraSpaceUsed_fl fl records =
     fsum fl (map (\<lambda>d. fsub fl (r_finalWidthPercent d) (r_naturalWidthPercent d))
                (filter r_isExpanded records))"

definition availableSpace_fl :: "(real \<Rightarrow> real) \<Rightarrow> rounded_data list \<Rightarrow> jsnum" where
  "availableSpace_fl fl records =
     fsub fl (Num 100) (fsum fl (map r_finalWidthPercent (filter r_isExpanded records)))"

definition naturalSpaceForNonExpanded_fl :: "(real \<Rightarrow> real) \<Rightarrow> rounded_data list \<Rightarrow> jsnum" where
  "naturalSpaceForNonExpanded_fl fl records =
     fsum fl (map r_naturalWidthPercent (filter (\<lambda>d. \<not> r_isExpanded d) records))"

definition rescale_fl :: "(real \<Rightarrow> real) \<Rightarrow> jsnum \<Rightarrow> real \<Rightarrow> rounded_data \<Rightarrow> rounded_data" where
  "rescale_fl fl scaleFactor containerWidth d =
     (if \<not> r_isExpanded d
      then d\<lparr>r_finalWidthPercent := fmul fl (r_naturalWidthPercent d) scaleFactor,
             r_finalWidthPixels :=
               fmul fl (fdiv fl (fmul fl (r_naturalWidthPercent d) scaleFactor) (Num 100))
                 (Num containerWidth)\<rparr>
      else d)"

text \<open>The two guards of the redistribution.\<close>

definition redistributes :: "(real \<Rightarrow> real) \<Rightarrow> rounded_data list \<Rightarrow> bool" where
  "redistributes fl records =
     (jlt (Num 0) (extraSpaceUsed_fl fl records)
      \<and> jlt (Num 0) (naturalSpaceForNonExpanded_fl fl records))"

definition redistribute_fl :: "(real \<Rightarrow> real) \<Rightarrow> real \<Rightarrow> rounded_data list \<Rightarrow> rounded_data list" where
  "redistribute_fl fl containerWidth records =
     (if jlt (Num 0) (extraSpaceUsed_fl fl records)
      then (if jlt (Num 0) (naturalSpaceForNonExpanded_fl fl records)
            then map (rescale_fl fl (fdiv fl (availableSpace_fl fl records)
                                       (naturalSpaceForNonExpanded_fl fl records))
                        containerWidth)
                   records
            else records)
      else records)"

fun calculateSegmentPositions_fl ::
  "(real \<Rightarrow> real) \<Rightarrow> jsnum \<Rightarrow> layout_config \<Rightarrow> rounded_data list \<Rightarrow> rounded_layout list" where
  "calculateSegmentPositions_fl fl currentLeft config [] = []"
| "calculateSegmentPositions_fl fl currentLeft config (d # rest) =
     \<lparr>rl_segment = r_segment d, rl_x = currentLeft, rl_y = SEGMENT_MARGIN config,
      rl_width = r_finalWidthPixels d,
      rl_height = fl (LEVEL_HEIGHT config - fl (2 * SEGMENT_MARGIN config)),
      rl_widthPercent = r_finalWidthPercent d, rl_isExpanded = r_isExpanded d,
      rl_naturalWidth = r_naturalWidthPixels d, rl_minWidth = r_minWidth d\<rparr>
     # calculateSegmentPositions_fl fl (fadd fl currentLeft (r_finalWidthPixels d)) config rest"

definition segmentData_fl ::
  "(real \<Rightarrow> real) \<Rightarrow> jsnum list \<Rightarrow> segment list \<Rightarrow> real \<Rightarrow> rounded_data list" where
  "segmentData_fl fl minWidths segments containerWidth =
     map (markExpanded_fl fl containerWidth)
       (map (initialData_fl fl (totalSize segments) containerWidth) (zip segments minWidths))"

definition calculateSegmentWidths_fl ::
  "(real \<Rightarrow> real) \<Rightarrow> jsnum list \<Rightarrow> segment list \<Rightarrow> real \<Rightarrow> layout_config \<Rightarrow> rounded_layout list" where
  "calculateSegmentWidths_fl fl minWidths segments containerWidth config =
     (if length segments = 0 then []
      else calculateSegmentPositions_fl fl (Num 0) config
             (redistribute_fl fl containerWidth (segmentData_fl fl minWidths segments containerWidth)))"

text \<open>The value of a width that is a number.\<close>

fun number :: "jsnum \<Rightarrow> real" where
  "number (Num x) = x"
| "number NaN = 0"

section \<open>Properties of the overview\<close>

lemma ParquetSegment_Inr:
  "ParquetSegment i n s e = Inr x \<longleftrightarrow>
     0 \<le> s \<and> s \<le> e \<and>
     x = \<lparr>seg_id = i, seg_name = n, seg_start = s, seg_end = e,
          rowGroupIndex = None, chunkIndex = None, pageIndex = None, columnPath = None\<rparr>"
  by (auto simp: ParquetSegment_def validate_def bad_index_def)

lemma ParquetSegment_ok:
  "0 \<le> s \<Longrightarrow> s \<le> e \<Longrightarrow>
   ParquetSegment i n s e =
     Inr \<lparr>seg_id = i, seg_name = n, seg_start = s, seg_end = e,
          rowGroupIndex = None, chunkIndex = None, pageIndex = None, columnPath = None\<rparr>"
  by (simp add: ParquetSegment_def validate_def bad_index_def)

lemma sequenceE_map_Inr: "sequenceE (map Inr xs) = Inr xs"
  by (induction xs) auto

lemma sequenceE_Inr_D: "sequenceE ms = Inr xs \<Longrightarrow> ms = map Inr xs"
proof (induction ms arbitrary: xs)
  case Nil
  then show ?case by simp
next
  case (Cons m ms)
  show ?case
  proof (cases m)
    case (Inl e)
    with Cons.prems show ?thesis by simp
  next
    case (Inr z)
    with Cons.prems obtain zs where zs: "sequenceE ms = Inr zs" and xs: "xs = z # zs"
      by (auto split: sum.splits)
    from Cons.IH [OF zs] Inr xs show ?thesis by simp
  qed
qed

lemma sequenceE_Inr: "sequenceE ms = Inr xs \<longleftrightarrow> ms = map Inr xs"
  using sequenceE_Inr_D sequenceE_map_Inr by blast

lemma metadataSize_no_metadata: "metadata fd = None \<Longrightarrow> metadataSize fd = 1024"
  by (simp add: metadataSize_def inner_metadata_def)

text \<open>
  C8 (as amended). \<open>buildOverviewSegments\<close> either throws a validation error or returns
  exactly the five segments leading magic, row-group region, metadata region, footer and
  trailing magic, with the ranges below; without column-chunk data it returns exactly when
  \<open>metadataSize + 12 \<le> filesize\<close>, and the five segments are then contiguous and span
  \<open>[0, filesize)\<close>; with column-chunk data the row-group region is
  \<open>[min start_offset, max (start_offset + total_byte_size))\<close>.
\<close>

theorem buildOverviewSegments_five:
  "(buildOverviewSegments fd = Inr segs \<longrightarrow>
      map seg_id segs = [''header_magic'', ''rowgroups'', ''metadata'', ''footer'', ''footer_magic'']
      \<and> ranges segs =
          [(0, 4),
           (rowGroupsStart fd, rowGroupsEnd fd),
           (rowGroupsEnd fd, int (filesize fd) - 8),
           (int (filesize fd) - 8, int (filesize fd) - 4),
           (int (filesize fd) - 4, int (filesize fd))]
      \<and> (\<not> has_chunk_data fd \<longrightarrow>
            contiguous segs \<and> seg_start (hd segs) = 0 \<and> seg_end (last segs) = int (filesize fd)))
   \<and> (\<not> has_chunk_data fd \<longrightarrow>
        rowGroupsStart fd = 4 \<and>
        rowGroupsEnd fd = int (filesize fd) - int (metadataSize fd) - 8 \<and>
        ((\<exists>ss. buildOverviewSegments fd = Inr ss) \<longleftrightarrow> metadataSize fd + 12 \<le> filesize fd))
   \<and> (has_chunk_data fd \<longrightarrow>
        rowGroupsStart fd = Min (set (map (\<lambda>c. int (start_offset c)) (the (column_chunks fd)))) \<and>
        rowGroupsEnd fd =
          Max (set (map (\<lambda>c. int (start_offset c) + int (total_byte_size c)) (the (column_chunks fd)))))"
proof (intro conjI impI)
  assume ok: "buildOverviewSegments fd = Inr segs"
  then have shape: "[ParquetSegment ''header_magic'' ''MAGIC'' 0 MAGIC_SIZE,
        ParquetSegment ''rowgroups'' ''ROWGROUPS'' (rowGroupsStart fd) (rowGroupsEnd fd),
        ParquetSegment ''metadata'' ''METADATA'' (rowGroupsEnd fd) (int (filesize fd) - FOOTER_SIZE),
        ParquetSegment ''footer'' ''FOOTER'' (int (filesize fd) - FOOTER_SIZE) (int (filesize fd) - MAGIC_SIZE),
        ParquetSegment ''footer_magic'' ''MAGIC'' (int (filesize fd) - MAGIC_SIZE) (int (filesize fd))]
      = map Inr segs"
    by (simp add: buildOverviewSegments_def sequenceE_Inr)
  then obtain a b c d e where segs: "segs = [a, b, c, d, e]"
    by (auto simp: map_eq_Cons_conv)
  from shape segs have
    a: "ParquetSegment ''header_magic'' ''MAGIC'' 0 MAGIC_SIZE = Inr a" and
    b: "ParquetSegment ''rowgroups'' ''ROWGROUPS'' (rowGroupsStart fd) (rowGroupsEnd fd) = Inr b" and
    c: "ParquetSegment ''metadata'' ''METADATA'' (rowGroupsEnd fd) (int (filesize fd) - FOOTER_SIZE) = Inr c" and
    d: "ParquetSegment ''footer'' ''FOOTER'' (int (filesize fd) - FOOTER_SIZE) (int (filesize fd) - MAGIC_SIZE) = Inr d" and
    e: "ParquetSegment ''footer_magic'' ''MAGIC'' (int (filesize fd) - MAGIC_SIZE) (int (filesize fd)) = Inr e"
    by simp_all
  note vals = a [unfolded ParquetSegment_Inr] b [unfolded ParquetSegment_Inr]
    c [unfolded ParquetSegment_Inr] d [unfolded ParquetSegment_Inr] e [unfolded ParquetSegment_Inr]
  show "map seg_id segs = [''header_magic'', ''rowgroups'', ''metadata'', ''footer'', ''footer_magic'']"
    using vals by (simp add: segs)
  show "ranges segs =
          [(0, 4),
           (rowGroupsStart fd, rowGroupsEnd fd),
           (rowGroupsEnd fd, int (filesize fd) - 8),
           (int (filesize fd) - 8, int (filesize fd) - 4),
           (int (filesize fd) - 4, int (filesize fd))]"
    using vals by (simp add: segs ranges_def MAGIC_SIZE_def FOOTER_SIZE_def)
  {
    assume nc: "\<not> has_chunk_data fd"
    show "contiguous segs" using vals nc
      by (simp add: segs rowGroupsStart_def MAGIC_SIZE_def FOOTER_SIZE_def)
    show "seg_start (hd segs) = 0" using vals by (simp add: segs)
    show "seg_end (last segs) = int (filesize fd)" using vals by (simp add: segs)
  }
next
  assume nc: "\<not> has_chunk_data fd"
  then show "rowGroupsStart fd = 4"
    by (simp add: rowGroupsStart_def MAGIC_SIZE_def)
  from nc show e: "rowGroupsEnd fd = int (filesize fd) - int (metadataSize fd) - 8"
    by (simp add: rowGroupsEnd_def FOOTER_SIZE_def)
  from nc have s: "rowGroupsStart fd = 4"
    by (simp add: rowGroupsStart_def MAGIC_SIZE_def)
  show "(\<exists>ss. buildOverviewSegments fd = Inr ss) \<longleftrightarrow> metadataSize fd + 12 \<le> filesize fd"
  proof
    assume "\<exists>ss. buildOverviewSegments fd = Inr ss"
    then obtain ss where "buildOverviewSegments fd = Inr ss" ..
    then have "\<exists>b. ParquetSegment ''rowgroups'' ''ROWGROUPS'' (rowGroupsStart fd) (rowGroupsEnd fd) = Inr b"
      by (auto simp: buildOverviewSegments_def sequenceE_Inr map_eq_Cons_conv)
    then have "rowGroupsStart fd \<le> rowGroupsEnd fd"
      by (auto simp: ParquetSegment_Inr)
    with s e show "metadataSize fd + 12 \<le> filesize fd" by simp
  next
    assume "metadataSize fd + 12 \<le> filesize fd"
    then show "\<exists>ss. buildOverviewSegments fd = Inr ss"
      using s e
      by (simp add: buildOverviewSegments_def ParquetSegment_ok MAGIC_SIZE_def FOOTER_SIZE_def)
  qed
next
  assume hc: "has_chunk_data fd"
  then show "rowGroupsStart fd = Min (set (map (\<lambda>c. int (start_offset c)) (the (column_chunks fd))))"
    by (simp add: rowGroupsStart_def Math_min_def)
  from hc show "rowGroupsEnd fd =
      Max (set (map (\<lambda>c. int (start_offset c) + int (total_byte_size c)) (the (column_chunks fd))))"
    by (simp add: rowGroupsEnd_def Math_max_def chunk_end_def [abs_def])
qed

text \<open>
  The spec's scenario 1 (\<open>filesize = 1000\<close>, no column chunks, metadata of 100 bytes):
  the five segments tile \<open>[0, 1000)\<close>.
\<close>

definition scenario1 :: file_data where
  "scenario1 = \<lparr>filesize = 1000, column_chunks = None,
     metadata = Some \<lparr>md_total_byte_size = Some 100, md_start_offset = None, md_metadata = None\<rparr>\<rparr>"

lemma scenario1_overview:
  "\<exists>segs. buildOverviewSegments scenario1 = Inr segs \<and>
     ranges segs = [(0, 4), (4, 892), (892, 992), (992, 996), (996, 1000)]"
  by (simp add: buildOverviewSegments_def scenario1_def rowGroupsStart_def rowGroupsEnd_def
      has_chunk_data_def metadataSize_def inner_metadata_def or_default_def ParquetSegment_ok
      MAGIC_SIZE_def FOOTER_SIZE_def ranges_def)

theorem buildOverviewSegments_five_witness:
  "\<exists>segs. buildOverviewSegments scenario1 = Inr segs \<and>
     \<not> has_chunk_data scenario1 \<and>
     metadataSize scenario1 + 12 \<le> filesize scenario1 \<and>
     ranges segs = [(0, 4), (4, 892), (892, 992), (992, 996), (996, 1000)] \<and>
     contiguous segs \<and> seg_start (hd segs) = 0 \<and> seg_end (last segs) = 1000"
proof -
  have nc: "\<not> has_chunk_data scenario1"
    by (simp add: has_chunk_data_def scenario1_def)
  have ms: "metadataSize scenario1 = 100"
    by (simp add: metadataSize_def scenario1_def inner_metadata_def or_default_def)
  have fs: "filesize scenario1 = 1000"
    by (simp add: scenario1_def)
  from buildOverviewSegments_five [of scenario1] nc ms fs
  obtain segs where ok: "buildOverviewSegments scenario1 = Inr segs"
    by auto
  from buildOverviewSegments_five [of scenario1 segs] ok nc ms fs
  show ?thesis by auto
qed

text \<open>
  Where the claim as stated fails: a 10-byte file with no metadata. The metadata size
  falls back to 1024, the row-group region would be \<open>[4, -1022)\<close>, and the constructor
  throws.
\<close>

definition tiny_file :: file_data where
  "tiny_file = \<lparr>filesize = 10, column_chunks = None, metadata = None\<rparr>"

theorem buildOverviewSegments_throws:
  "buildOverviewSegments tiny_file = Inl (EndBeforeStart (- 1022) 4)"
  by (simp add: buildOverviewSegments_def tiny_file_def rowGroupsStart_def rowGroupsEnd_def
      has_chunk_data_def metadataSize_def inner_metadata_def ParquetSegment_def validate_def
      bad_index_def MAGIC_SIZE_def FOOTER_SIZE_def)

section \<open>Properties of the chunk partition\<close>

lemma validate_ok:
  "0 \<le> seg_start s \<Longrightarrow> seg_start s \<le> seg_end s \<Longrightarrow> \<not> bad_index (rowGroupIndex s) \<Longrightarrow>
   \<not> bad_index (chunkIndex s) \<Longrightarrow> \<not> bad_index (pageIndex s) \<Longrightarrow> validate s = Inr s"
  by (simp add: validate_def)

lemma sequenceE_concat:
  "(\<And>x. x \<in> set xs \<Longrightarrow> f x = map Inr (g x)) \<Longrightarrow>
   sequenceE (concat (map f xs)) = Inr (concat (map g xs))"
proof -
  assume "\<And>x. x \<in> set xs \<Longrightarrow> f x = map Inr (g x)"
  then have "concat (map f xs) = map Inr (concat (map g xs))"
    by (induction xs) (auto simp: map_concat)
  then show ?thesis by (simp add: sequenceE_map_Inr)
qed

lemma sequenceE_map:
  "(\<And>x. x \<in> set xs \<Longrightarrow> f x = Inr (g x)) \<Longrightarrow> sequenceE (map f xs) = Inr (map g xs)"
proof -
  assume "\<And>x. x \<in> set xs \<Longrightarrow> f x = Inr (g x)"
  then have "map f xs = map Inr (map g xs)" by simp
  then show ?thesis by (simp only: sequenceE_map_Inr)
qed

lemma concat_blocks_take:
  "concat (map (\<lambda>i. take c (drop (i * c) xs)) [0..<r]) = take (r * c) xs"
proof (induction r)
  case 0
  then show ?case by simp
next
  case (Suc r)
  have "take (r * c) xs @ take c (drop (r * c) xs) = take (r * c + c) xs"
    by (simp add: take_add)
  with Suc show ?case by (simp add: add.commute)
qed

lemma ceil_div_covers:
  fixes n r :: nat
  assumes "0 < r"
  shows "n \<le> r * ((n + r - 1) div r)"
proof -
  have "n + r - 1 < r * ((n + r - 1) div r) + r"
    using assms by (metis add.commute dividend_less_times_div)
  then show ?thesis using assms by linarith
qed

lemma ceil_div_real:
  fixes n r :: nat
  assumes "0 < r"
  shows "(n + r - 1) div r = nat \<lceil>real n / real r\<rceil>"
proof -
  let ?q = "(n + r - 1) div r"
  have up: "n \<le> r * ?q" using assms by (rule ceil_div_covers)
  have "r * ?q \<le> n + r - 1" by simp
  then have low: "r * ?q < n + r" using assms by linarith
  have "real n / real r \<le> real ?q"
  proof -
    have "real n \<le> real ?q * real r" using up
      by (metis mult.commute of_nat_le_iff of_nat_mult)
    then show ?thesis using assms by (simp add: pos_divide_le_eq)
  qed
  moreover have "real ?q - 1 < real n / real r"
  proof -
    have "real (r * ?q) < real (n + r)" using low by (simp only: of_nat_less_iff)
    then have "(real ?q - 1) * real r < real n"
      by (simp add: algebra_simps)
    then show ?thesis using assms by (simp add: pos_less_divide_eq)
  qed
  ultimately have "\<lceil>real n / real r\<rceil> = int ?q"
    by (intro ceiling_unique) simp_all
  then show ?thesis by simp
qed

lemma getChunksForRowGroup_block:
  "getChunksForRowGroup fd i =
     take (chunksPerRowGroup fd) (drop (i * chunksPerRowGroup fd) (all_chunks fd))"
proof -
  let ?c = "chunksPerRowGroup fd" and ?xs = "all_chunks fd"
  have "take (min (i * ?c + ?c) (length ?xs) - i * ?c) (drop (i * ?c) ?xs)
        = take ?c (drop (i * ?c) ?xs)"
  proof (cases "i * ?c + ?c \<le> length ?xs")
    case True
    then show ?thesis by (simp add: min_def)
  next
    case False
    then have "length (drop (i * ?c) ?xs) \<le> ?c" by simp
    moreover have "length (drop (i * ?c) ?xs) \<le> min (i * ?c + ?c) (length ?xs) - i * ?c"
      using False by (simp add: min_def)
    ultimately show ?thesis by simp
  qed
  then show ?thesis by (simp add: getChunksForRowGroup_def Let_def)
qed

lemma numRowGroups_Some: "row_groups_of fd = Some rgs \<Longrightarrow> rgs \<noteq> [] \<Longrightarrow> numRowGroups fd = length rgs"
  by (simp add: numRowGroups_def)

lemma concat_getChunks:
  assumes "row_groups_of fd = Some rgs" "rgs \<noteq> []"
  shows "concat (map (getChunksForRowGroup fd) [0..<length rgs]) = all_chunks fd"
proof -
  have r: "numRowGroups fd = length rgs" using assms by (rule numRowGroups_Some)
  have "length (all_chunks fd) \<le> length rgs * chunksPerRowGroup fd"
    using assms(2) ceil_div_covers [of "length rgs" "length (all_chunks fd)"]
    by (simp add: chunksPerRowGroup_def r)
  then have "take (length rgs * chunksPerRowGroup fd) (all_chunks fd) = all_chunks fd"
    by simp
  moreover have "map (getChunksForRowGroup fd) [0..<length rgs]
     = map (\<lambda>i. take (chunksPerRowGroup fd) (drop (i * chunksPerRowGroup fd) (all_chunks fd))) [0..<length rgs]"
    by (simp add: getChunksForRowGroup_block)
  ultimately show ?thesis
    by (simp only: concat_blocks_take)
qed

text \<open>The segment built for a chunk, and the one built for a row group with chunks.\<close>

definition chunk_segment :: "nat \<Rightarrow> nat \<times> column_chunk \<Rightarrow> segment" where
  "chunk_segment rgIndex ic =
     \<lparr>seg_id = ''chunk_'' @ string_of_nat rgIndex @ ''_'' @ string_of_nat (fst ic),
      seg_name = path_in_schema (snd ic),
      seg_start = int (start_offset (snd ic)),
      seg_end = int (start_offset (snd ic)) + int (total_byte_size (snd ic)),
      rowGroupIndex = Some (int rgIndex), chunkIndex = Some (int (fst ic)),
      pageIndex = None, columnPath = Some (path_in_schema (snd ic))\<rparr>"

definition row_group_segment :: "file_data \<Rightarrow> nat \<Rightarrow> segment" where
  "row_group_segment fd index =
     \<lparr>seg_id = ''rowgroup_'' @ string_of_nat index,
      seg_name = ''RG'' @ string_of_nat index,
      seg_start = Min (set (map (\<lambda>c. int (start_offset c)) (getChunksForRowGroup fd index))),
      seg_end = Max (set (map (\<lambda>c. int (start_offset c) + int (total_byte_size c))
                           (getChunksForRowGroup fd index))),
      rowGroupIndex = Some (int index), chunkIndex = None, pageIndex = None, columnPath = None\<rparr>"

lemma columnChunkSegment_ok: "columnChunkSegment r ic = Inr (chunk_segment r ic)"
  by (cases ic) (simp add: columnChunkSegment_def chunk_segment_def validate_def bad_index_def)

lemma buildColumnChunkSegments_ok:
  "buildColumnChunkSegments fd r =
     Inr (sort_key seg_start (map (chunk_segment r) (enumerate 0 (getChunksForRowGroup fd r))))"
proof -
  have "sequenceE (map (columnChunkSegment r) (enumerate 0 (getChunksForRowGroup fd r)))
        = Inr (map (chunk_segment r) (enumerate 0 (getChunksForRowGroup fd r)))"
    by (rule sequenceE_map) (rule columnChunkSegment_ok)
  then show ?thesis by (simp add: buildColumnChunkSegments_def bindE_def)
qed

lemma Min_le_Max_chunks:
  assumes "cs \<noteq> []"
  shows "Min (set (map (\<lambda>c. int (start_offset c)) cs))
         \<le> Max (set (map (\<lambda>c. int (start_offset c) + int (total_byte_size c)) cs))"
proof -
  from assms obtain c where c: "c \<in> set cs" by (cases cs) auto
  have "Min (set (map (\<lambda>c. int (start_offset c)) cs)) \<le> int (start_offset c)"
    using c by (intro Min_le) auto
  also have "\<dots> \<le> int (start_offset c) + int (total_byte_size c)" by simp
  also have "\<dots> \<le> Max (set (map (\<lambda>c. int (start_offset c) + int (total_byte_size c)) cs))"
    using c by (intro Max_ge) auto
  finally show ?thesis .
qed

lemma Min_chunks_nonneg:
  assumes "cs \<noteq> []"
  shows "0 \<le> Min (set (map (\<lambda>c. int (start_offset c)) cs))"
  using assms by (subst Min_ge_iff) auto

lemma rowGroupSegment_ok:
  "rowGroupSegment fd i =
     map Inr (if getChunksForRowGroup fd i = [] then [] else [row_group_segment fd i])"
proof (cases "getChunksForRowGroup fd i = []")
  case True
  then show ?thesis by (simp add: rowGroupSegment_def)
next
  case False
  have "validate (row_group_segment fd i) = Inr (row_group_segment fd i)"
    using Min_le_Max_chunks [OF False] Min_chunks_nonneg [OF False]
    by (intro validate_ok) (simp_all add: row_group_segment_def bad_index_def)
  with False show ?thesis
    by (simp add: rowGroupSegment_def Let_def row_group_segment_def Math_min_def Math_max_def
        chunk_end_def [abs_def])
qed

lemma buildRowGroupSegments_ok:
  assumes "row_groups_of fd = Some rgs"
  shows "buildRowGroupSegments fd =
     Inr (map (row_group_segment fd) (filter (\<lambda>i. getChunksForRowGroup fd i \<noteq> []) [0..<length rgs]))"
proof -
  have "concat (map (\<lambda>i. if getChunksForRowGroup fd i = [] then [] else [row_group_segment fd i]) xs)
        = map (row_group_segment fd) (filter (\<lambda>i. getChunksForRowGroup fd i \<noteq> []) xs)" for xs
    by (induction xs) auto
  then show ?thesis
    using assms sequenceE_concat [of "[0..<length rgs]" "rowGroupSegment fd"
        "\<lambda>i. if getChunksForRowGroup fd i = [] then [] else [row_group_segment fd i]"]
    by (simp add: buildRowGroupSegments_def rowGroupSegment_ok)
qed

text \<open>
  C7. With \<open>N\<close> column chunks and \<open>R \<ge> 1\<close> row groups, row group \<open>i\<close> is assigned the
  contiguous block of \<open>\<lceil>N / R\<rceil>\<close> chunks starting at position \<open>i * \<lceil>N / R\<rceil>\<close>; the
  blocks of the \<open>R\<close> row groups, in order, make up the flat chunk list, so every chunk is
  in exactly one block. \<open>buildColumnChunkSegments\<close> returns for every row group the
  segments of its block (sorted by start offset), \<open>N\<close> segments in total, and every row
  group segment runs from the smallest start offset to the largest
  \<open>start_offset + total_byte_size\<close> of its block.
\<close>

theorem chunk_partition:
  assumes "row_groups_of fd = Some rgs" and "rgs \<noteq> []"
  shows "chunksPerRowGroup fd = nat \<lceil>real (length (all_chunks fd)) / real (length rgs)\<rceil>
    \<and> (\<forall>i. getChunksForRowGroup fd i =
            take (chunksPerRowGroup fd) (drop (i * chunksPerRowGroup fd) (all_chunks fd)))
    \<and> concat (map (getChunksForRowGroup fd) [0..<length rgs]) = all_chunks fd
    \<and> (\<exists>buckets. map (buildColumnChunkSegments fd) [0..<length rgs] = map Inr buckets
          \<and> length (concat buckets) = length (all_chunks fd)
          \<and> (\<forall>i<length rgs. mset (buckets ! i) =
                mset (map (chunk_segment i) (enumerate 0 (getChunksForRowGroup fd i)))))
    \<and> (\<exists>segs. buildRowGroupSegments fd = Inr segs
          \<and> map rowGroupIndex segs =
              map (\<lambda>i. Some (int i)) (filter (\<lambda>i. getChunksForRowGroup fd i \<noteq> []) [0..<length rgs])
          \<and> (\<forall>s\<in>set segs. \<forall>i. rowGroupIndex s = Some (int i) \<longrightarrow>
                seg_start s = Min (set (map (\<lambda>c. int (start_offset c)) (getChunksForRowGroup fd i)))
              \<and> seg_end s = Max (set (map (\<lambda>c. int (start_offset c) + int (total_byte_size c))
                                         (getChunksForRowGroup fd i)))))"
proof (intro conjI)
  show "chunksPerRowGroup fd = nat \<lceil>real (length (all_chunks fd)) / real (length rgs)\<rceil>"
    using assms ceil_div_real [of "length rgs" "length (all_chunks fd)"]
    by (simp add: chunksPerRowGroup_def numRowGroups_Some)
  show "\<forall>i. getChunksForRowGroup fd i =
            take (chunksPerRowGroup fd) (drop (i * chunksPerRowGroup fd) (all_chunks fd))"
    by (simp add: getChunksForRowGroup_block)
  show cc: "concat (map (getChunksForRowGroup fd) [0..<length rgs]) = all_chunks fd"
    using assms by (rule concat_getChunks)
  let ?b = "\<lambda>i. sort_key seg_start (map (chunk_segment i) (enumerate 0 (getChunksForRowGroup fd i)))"
  have "length (concat (map ?b xs)) = length (concat (map (getChunksForRowGroup fd) xs))" for xs
    by (induction xs) simp_all
  then have "length (concat (map ?b [0..<length rgs])) = length (all_chunks fd)"
    by (simp only: cc)
  moreover have "map (buildColumnChunkSegments fd) [0..<length rgs] = map Inr (map ?b [0..<length rgs])"
    by (simp add: buildColumnChunkSegments_ok)
  moreover have "\<forall>i<length rgs. mset (map ?b [0..<length rgs] ! i) =
                mset (map (chunk_segment i) (enumerate 0 (getChunksForRowGroup fd i)))"
    by simp
  ultimately show "\<exists>buckets. map (buildColumnChunkSegments fd) [0..<length rgs] = map Inr buckets
          \<and> length (concat buckets) = length (all_chunks fd)
          \<and> (\<forall>i<length rgs. mset (buckets ! i) =
                mset (map (chunk_segment i) (enumerate 0 (getChunksForRowGroup fd i))))"
    by blast
  let ?segs = "map (row_group_segment fd) (filter (\<lambda>i. getChunksForRowGroup fd i \<noteq> []) [0..<length rgs])"
  have "buildRowGroupSegments fd = Inr ?segs"
    using assms(1) by (rule buildRowGroupSegments_ok)
  moreover have "map rowGroupIndex ?segs =
      map (\<lambda>i. Some (int i)) (filter (\<lambda>i. getChunksForRowGroup fd i \<noteq> []) [0..<length rgs])"
    by (simp add: row_group_segment_def)
  moreover have "\<forall>s\<in>set ?segs. \<forall>i. rowGroupIndex s = Some (int i) \<longrightarrow>
                seg_start s = Min (set (map (\<lambda>c. int (start_offset c)) (getChunksForRowGroup fd i)))
              \<and> seg_end s = Max (set (map (\<lambda>c. int (start_offset c) + int (total_byte_size c))
                                         (getChunksForRowGroup fd i)))"
    by (auto simp: row_group_segment_def)
  ultimately show "\<exists>segs. buildRowGroupSegments fd = Inr segs
          \<and> map rowGroupIndex segs =
              map (\<lambda>i. Some (int i)) (filter (\<lambda>i. getChunksForRowGroup fd i \<noteq> []) [0..<length rgs])
          \<and> (\<forall>s\<in>set segs. \<forall>i. rowGroupIndex s = Some (int i) \<longrightarrow>
                seg_start s = Min (set (map (\<lambda>c. int (start_offset c)) (getChunksForRowGroup fd i)))
              \<and> seg_end s = Max (set (map (\<lambda>c. int (start_offset c) + int (total_byte_size c))
                                         (getChunksForRowGroup fd i))))"
    by blast
qed

text \<open>
  The spec's scenario 2, with the three chunks spread over two row groups: the blocks are
  the first two chunks and the last one.
\<close>

definition chunk_at :: "string \<Rightarrow> nat \<Rightarrow> nat \<Rightarrow> column_chunk" where
  "chunk_at p off len =
     \<lparr>path_in_schema = p, start_offset = off, total_byte_size = len,
      dictionary_page = None, data_pages = None, index_pages = None\<rparr>"

definition empty_row_group :: row_group where
  "empty_row_group = \<lparr>rg_byte_length = None, rg_column_chunks = None\<rparr>"

definition scenario2 :: file_data where
  "scenario2 =
     \<lparr>filesize = 1000,
      column_chunks = Some [chunk_at ''a'' 100 50, chunk_at ''b'' 200 80, chunk_at ''c'' 150 30],
      metadata = Some \<lparr>md_total_byte_size = Some 100, md_start_offset = None,
        md_metadata = Some \<lparr>schema_root = None,
          row_groups = Some [empty_row_group, empty_row_group],
          key_value_metadata = None, json_length = 2\<rparr>\<rparr>\<rparr>"

lemma scenario2_facts:
  "row_groups_of scenario2 = Some [empty_row_group, empty_row_group]"
  "all_chunks scenario2 = [chunk_at ''a'' 100 50, chunk_at ''b'' 200 80, chunk_at ''c'' 150 30]"
  "chunksPerRowGroup scenario2 = 2"
proof -
  show rg: "row_groups_of scenario2 = Some [empty_row_group, empty_row_group]"
    by (simp add: scenario2_def row_groups_of_def inner_metadata_def)
  show cs: "all_chunks scenario2 = [chunk_at ''a'' 100 50, chunk_at ''b'' 200 80, chunk_at ''c'' 150 30]"
    by (simp add: scenario2_def all_chunks_def)
  have "numRowGroups scenario2 = 2" "length (all_chunks scenario2) = 3"
    by (simp_all add: numRowGroups_def rg cs)
  then show "chunksPerRowGroup scenario2 = 2"
    by (simp add: chunksPerRowGroup_def)
qed

lemma scenario2_blocks:
  "getChunksForRowGroup scenario2 0 = [chunk_at ''a'' 100 50, chunk_at ''b'' 200 80]"
  "getChunksForRowGroup scenario2 1 = [chunk_at ''c'' 150 30]"
  "getChunksForRowGroup scenario2 (Suc 0) = [chunk_at ''c'' 150 30]"
  by (simp_all add: getChunksForRowGroup_block scenario2_facts)

theorem chunk_partition_witness:
  "row_groups_of scenario2 = Some [empty_row_group, empty_row_group]
   \<and> chunksPerRowGroup scenario2 = 2
   \<and> concat (map (getChunksForRowGroup scenario2) [0..<2]) = all_chunks scenario2
   \<and> (\<exists>segs. buildRowGroupSegments scenario2 = Inr segs
         \<and> map rowGroupIndex segs = [Some 0, Some 1]
         \<and> ranges segs = [(100, 280), (150, 180)])"
proof -
  have rg: "row_groups_of scenario2 = Some [empty_row_group, empty_row_group]"
    by (rule scenario2_facts)
  have ne: "[empty_row_group, empty_row_group] \<noteq> []" by simp
  have up: "[0..<2] = [0, Suc 0]" by (simp add: upt_rec)
  from chunk_partition [OF rg ne]
  obtain segs where
    c: "concat (map (getChunksForRowGroup scenario2) [0..<length [empty_row_group, empty_row_group]])
          = all_chunks scenario2" and
    b: "buildRowGroupSegments scenario2 = Inr segs" and
    ix: "map rowGroupIndex segs =
           map (\<lambda>i. Some (int i)) (filter (\<lambda>i. getChunksForRowGroup scenario2 i \<noteq> [])
             [0..<length [empty_row_group, empty_row_group]])" and
    r: "\<forall>s\<in>set segs. \<forall>i. rowGroupIndex s = Some (int i) \<longrightarrow>
          seg_start s = Min (set (map (\<lambda>c. int (start_offset c)) (getChunksForRowGroup scenario2 i)))
        \<and> seg_end s = Max (set (map (\<lambda>c. int (start_offset c) + int (total_byte_size c))
                                   (getChunksForRowGroup scenario2 i)))"
    by blast
  from ix have ix': "map rowGroupIndex segs = [Some 0, Some 1]"
    by (simp add: up scenario2_blocks)
  then obtain s0 s1 where segs: "segs = [s0, s1]"
    and i0: "rowGroupIndex s0 = Some (int 0)" and i1: "rowGroupIndex s1 = Some (int (Suc 0))"
    by (auto simp: map_eq_Cons_conv)
  from r segs i0 have "seg_start s0 = 100 \<and> seg_end s0 = 280"
    by (simp add: scenario2_blocks chunk_at_def del: of_nat_0)
  moreover from r segs i1 have "seg_start s1 = 150 \<and> seg_end s1 = 180"
    by (simp add: scenario2_blocks chunk_at_def del: of_nat_Suc)
  ultimately have "ranges segs = [(100, 280), (150, 180)]"
    by (simp add: ranges_def segs)
  with rg c b ix' show ?thesis
    by (simp add: scenario2_facts up)
qed

section \<open>Properties of findSegment\<close>

lemma findIn_member:
  "s \<in> set segs \<Longrightarrow> \<exists>found. findIn (seg_id s) segs = Some found \<and> seg_id found = seg_id s"
  by (induction segs) (auto simp: findIn_def)

lemma findInBuckets_member:
  "s \<in> set elements \<Longrightarrow> elements \<in> set buckets \<Longrightarrow>
   \<exists>found. findInBuckets (seg_id s) buckets = Some found \<and> seg_id found = seg_id s"
proof (induction buckets)
  case Nil
  then show ?case by simp
next
  case (Cons b bs)
  show ?case
  proof (cases "findIn (seg_id s) b")
    case None
    with Cons.prems findIn_member [of s b] have "elements \<in> set bs" by auto
    with Cons.IH Cons.prems(1) None show ?thesis by simp
  next
    case (Some found)
    then have "seg_id found = seg_id s"
      by (auto simp: findIn_def dest: find_Some_iff [THEN iffD1])
    with Some show ?thesis by simp
  qed
qed

lemma findIn_id: "findIn i segs = Some found \<Longrightarrow> seg_id found = i"
  by (auto simp: findIn_def dest: find_Some_iff [THEN iffD1])

lemma findInBuckets_id: "findInBuckets i buckets = Some found \<Longrightarrow> seg_id found = i"
  by (induction buckets) (auto split: option.splits dest: findIn_id)

lemma orElse_eq_Some: "orElse a b = Some x \<longleftrightarrow> a = Some x \<or> (a = None \<and> b = Some x)"
  by (cases a) (auto simp: orElse_def)

lemma orElse_eq_None: "orElse a b = None \<longleftrightarrow> a = None \<and> b = None"
  by (cases a) (auto simp: orElse_def)

lemma findSegment_id: "findSegment c i = Some found \<Longrightarrow> seg_id found = i"
  unfolding findSegment_def orElse_eq_Some
  by (elim disjE conjE) (erule findIn_id findInBuckets_id)+

lemma findSegment_None:
  "findSegment c i = None \<longleftrightarrow>
     findIn i (overview c) = None \<and> findIn i (metadatastructure c) = None
   \<and> findInBuckets i (map snd (schemaelements c)) = None
   \<and> findInBuckets i (map snd (rowgroupelements c)) = None
   \<and> findInBuckets i (map snd (indexelements c)) = None
   \<and> findInBuckets i (map snd (keyvaluemetadata c)) = None
   \<and> findIn i (rowgroups c) = None
   \<and> findInBuckets i (map snd (columnchunks c)) = None
   \<and> findInBuckets i (map snd (pages c)) = None"
  by (simp only: findSegment_def orElse_eq_None conj_assoc)

lemma findInBuckets_concat:
  "s \<in> set (concat buckets) \<Longrightarrow> findInBuckets (seg_id s) buckets \<noteq> None"
  using findInBuckets_member [of s _ buckets] by auto

lemma findIn_set: "s \<in> set segs \<Longrightarrow> findIn (seg_id s) segs \<noteq> None"
  using findIn_member [of s segs] by auto

text \<open>
  Every level that \<open>findSegment\<close> scans is covered: a segment stored in the overview, the
  metadata structure, a schema-element, row-group-element, index-element or key-value
  bucket, the row groups, a column-chunk bucket or a page bucket is found by its id.
\<close>

lemma findSegment_scanned_levels:
  assumes "s \<in> set (overview c) \<or> s \<in> set (metadatastructure c)
         \<or> s \<in> set (concat (map snd (schemaelements c)))
         \<or> s \<in> set (concat (map snd (rowgroupelements c)))
         \<or> s \<in> set (concat (map snd (indexelements c)))
         \<or> s \<in> set (concat (map snd (keyvaluemetadata c)))
         \<or> s \<in> set (rowgroups c)
         \<or> s \<in> set (concat (map snd (columnchunks c)))
         \<or> s \<in> set (concat (map snd (pages c)))"
  shows "\<exists>found. findSegment c (seg_id s) = Some found \<and> seg_id found = seg_id s"
proof -
  have "findSegment c (seg_id s) \<noteq> None"
    unfolding findSegment_None
    using assms findIn_set [of s] findInBuckets_concat [of s]
    by blast
  then obtain found where "findSegment c (seg_id s) = Some found" by auto
  then show ?thesis using findSegment_id by blast
qed

text \<open>
  A payload with one row group whose metadata lists one column, and the cache that
  \<open>buildAll\<close> makes of it.
\<close>

definition plain_segment :: "string \<Rightarrow> string \<Rightarrow> int \<Rightarrow> int \<Rightarrow> segment" where
  "plain_segment i n s e =
     \<lparr>seg_id = i, seg_name = n, seg_start = s, seg_end = e,
      rowGroupIndex = None, chunkIndex = None, pageIndex = None, columnPath = None\<rparr>"

definition column_meta_input :: file_data where
  "column_meta_input =
     \<lparr>filesize = 2000, column_chunks = None,
      metadata = Some \<lparr>md_total_byte_size = Some 100, md_start_offset = None,
        md_metadata = Some \<lparr>schema_root = None,
          row_groups = Some [\<lparr>rg_byte_length = None,
             rg_column_chunks = Some [(''a'', \<lparr>total_compressed_size = None,
                total_uncompressed_size = None, column_index_offset = None,
                column_index_length = None\<rparr>)]\<rparr>],
          key_value_metadata = None, json_length = 2\<rparr>\<rparr>\<rparr>"

definition column_meta_segment :: segment where
  "column_meta_segment =
     \<lparr>seg_id = ''column_meta_0_0'', seg_name = ''a'', seg_start = 0, seg_end = 100,
      rowGroupIndex = Some 0, chunkIndex = Some 0, pageIndex = None, columnPath = Some ''a''\<rparr>"

definition column_meta_cache :: hierarchy_cache where
  "column_meta_cache =
     \<lparr>overview =
        [plain_segment ''header_magic'' ''MAGIC'' 0 4,
         plain_segment ''rowgroups'' ''ROWGROUPS'' 4 1892,
         plain_segment ''metadata'' ''METADATA'' 1892 1992,
         plain_segment ''footer'' ''FOOTER'' 1992 1996,
         plain_segment ''footer_magic'' ''MAGIC'' 1996 2000],
      rowgroups = [],
      columnchunks = [(0, [])],
      pages = [],
      metadatastructure = [plain_segment ''row_groups_metadata'' ''ROW GROUP METADATA'' 0 200],
      schemaelements = [],
      rowgroupelements =
        [(''row_groups_metadata'',
          [(plain_segment ''rowgroup_meta_0'' ''ROW GROUP 0'' 600 800)\<lparr>rowGroupIndex := Some 0\<rparr>])],
      indexelements = [],
      keyvaluemetadata = [],
      columnchunkmetadata = [(''rowgroup_meta_0'', [column_meta_segment])]\<rparr>"

lemma column_meta_input_cache: "buildAll column_meta_input = Inr column_meta_cache"
  by code_simp

lemma column_meta_cache_find:
  "findSegment column_meta_cache ''column_meta_0_0'' = None"
  "map_option seg_id (findSegment column_meta_cache ''rowgroup_meta_0'') = Some ''rowgroup_meta_0''"
  by code_simp+

text \<open>
  C3 at an input where it fails. One row group whose metadata lists one column: the
  cache's \<open>columnchunkmetadata\<close> level holds the segment \<open>column_meta_0_0\<close>, and
  \<open>findSegment\<close>, which never scans that level, returns nothing for its id (while it finds
  the row-group metadata element above it).
\<close>

theorem findSegment_misses_column_chunk_metadata:
  "buildAll column_meta_input = Inr column_meta_cache
   \<and> columnchunkmetadata column_meta_cache = [(''rowgroup_meta_0'', [column_meta_segment])]
   \<and> seg_id column_meta_segment = ''column_meta_0_0''
   \<and> findSegment column_meta_cache ''column_meta_0_0'' = None
   \<and> map_option seg_id (findSegment column_meta_cache ''rowgroup_meta_0'') = Some ''rowgroup_meta_0''"
  by (simp add: column_meta_input_cache column_meta_cache_find)
     (simp add: column_meta_cache_def column_meta_segment_def)

section \<open>Missing structure\<close>

text \<open>
  C4 (as amended). When the row groups, the metadata object, the key-value metadata, the
  schema root, the column indices or the column chunks are absent, the builder of every
  level that depends on them returns an empty array or an empty map and does not throw.
  (\<open>buildOverviewSegments\<close> is not one of them: it always builds its five segments.)
\<close>

theorem missing_structure_degrades:
  "(row_groups_of fd = None \<longrightarrow>
       buildRowGroupSegments fd = Inr [] \<and> buildRowGroupMetadataSegments fd = Inr []
     \<and> buildColumnChunkMetadataSegments fd = Inr [] \<and> buildColumnIndexSegments fd = Inr []
     \<and> buildAllColumnChunks fd = Inr [])
   \<and> (inner_metadata fd = None \<longrightarrow>
       buildMetadataStructureSegments fd = Inr [] \<and> buildAllSchemaElementSegments fd = Inr []
     \<and> buildKeyValueMetadataSegments fd = Inr [])
   \<and> (\<forall>md. inner_metadata fd = Some md \<and> key_value_metadata md = None \<longrightarrow>
         buildKeyValueMetadataSegments fd = Inr [])
   \<and> (\<forall>md. inner_metadata fd = Some md \<and> schema_root md = None \<longrightarrow>
         buildAllSchemaElementSegments fd = Inr [])
   \<and> (\<forall>md. inner_metadata fd = Some md \<and> schema_root md = None \<and> row_groups md = None
           \<and> key_value_metadata md = None \<longrightarrow>
         buildMetadataStructureSegments fd = Inr [])
   \<and> (extractColumnIndicesInfo fd = [] \<longrightarrow> buildColumnIndexSegments fd = Inr [])
   \<and> (all_chunks fd = [] \<longrightarrow>
         buildRowGroupSegments fd = Inr []
       \<and> (\<forall>i. buildColumnChunkSegments fd i = Inr [])
       \<and> (\<forall>i j. buildPageSegments fd i j = Inr []))"
proof (intro conjI impI allI)
  assume rg: "row_groups_of fd = None"
  then show "buildRowGroupSegments fd = Inr []"
    by (simp add: buildRowGroupSegments_def)
  from rg show "buildRowGroupMetadataSegments fd = Inr []"
    by (simp add: buildRowGroupMetadataSegments_def)
  from rg show "buildColumnChunkMetadataSegments fd = Inr []"
    by (simp add: buildColumnChunkMetadataSegments_def)
  from rg show "buildColumnIndexSegments fd = Inr []"
    by (simp add: buildColumnIndexSegments_def extractColumnIndicesInfo_def)
  from rg show "buildAllColumnChunks fd = Inr []"
    by (simp add: buildAllColumnChunks_def)
next
  assume md: "inner_metadata fd = None"
  then show "buildMetadataStructureSegments fd = Inr []"
    by (simp add: buildMetadataStructureSegments_def)
  from md show "buildAllSchemaElementSegments fd = Inr []"
    by (simp add: buildAllSchemaElementSegments_def)
  from md show "buildKeyValueMetadataSegments fd = Inr []"
    by (simp add: buildKeyValueMetadataSegments_def)
next
  fix md assume "inner_metadata fd = Some md \<and> key_value_metadata md = None"
  then show "buildKeyValueMetadataSegments fd = Inr []"
    by (simp add: buildKeyValueMetadataSegments_def)
next
  fix md assume "inner_metadata fd = Some md \<and> schema_root md = None"
  then show "buildAllSchemaElementSegments fd = Inr []"
    by (simp add: buildAllSchemaElementSegments_def)
next
  fix md assume a: "inner_metadata fd = Some md \<and> schema_root md = None \<and> row_groups md = None
           \<and> key_value_metadata md = None"
  then have "extractColumnIndicesInfo fd = []"
    by (simp add: extractColumnIndicesInfo_def row_groups_of_def)
  with a show "buildMetadataStructureSegments fd = Inr []"
    by (simp add: buildMetadataStructureSegments_def bindE_def)
next
  assume "extractColumnIndicesInfo fd = []"
  then show "buildColumnIndexSegments fd = Inr []"
    by (simp add: buildColumnIndexSegments_def)
next
  assume nc: "all_chunks fd = []"
  then have blocks: "getChunksForRowGroup fd i = []" for i
    by (simp add: getChunksForRowGroup_block)
  show "buildRowGroupSegments fd = Inr []"
  proof (cases "row_groups_of fd")
    case None
    then show ?thesis by (simp add: buildRowGroupSegments_def)
  next
    case (Some rgs)
    from buildRowGroupSegments_ok [OF Some] show ?thesis
      by (simp add: blocks)
  qed
  show "buildColumnChunkSegments fd i = Inr []" for i
    by (simp add: buildColumnChunkSegments_ok blocks enumerate_eq_zip)
  show "buildPageSegments fd i j = Inr []" for i j
    by (simp add: buildPageSegments_def blocks)
qed

text \<open>
  Two payloads with missing structure: one with an empty chunk array and no metadata at
  all, one whose metadata object is present and empty.
\<close>

definition no_structure_file :: file_data where
  "no_structure_file = \<lparr>filesize = 100, column_chunks = Some [], metadata = None\<rparr>"

definition bare_metadata :: file_metadata where
  "bare_metadata = \<lparr>schema_root = None, row_groups = None, key_value_metadata = None, json_length = 2\<rparr>"

definition bare_metadata_file :: file_data where
  "bare_metadata_file =
     \<lparr>filesize = 100, column_chunks = None,
      metadata = Some \<lparr>md_total_byte_size = None, md_start_offset = None,
                       md_metadata = Some bare_metadata\<rparr>\<rparr>"

theorem missing_structure_degrades_witness:
  "row_groups_of no_structure_file = None \<and> inner_metadata no_structure_file = None
   \<and> extractColumnIndicesInfo no_structure_file = [] \<and> all_chunks no_structure_file = []
   \<and> inner_metadata bare_metadata_file = Some bare_metadata
   \<and> schema_root bare_metadata = None \<and> row_groups bare_metadata = None
   \<and> key_value_metadata bare_metadata = None
   \<and> buildRowGroupSegments no_structure_file = Inr []
   \<and> buildRowGroupMetadataSegments no_structure_file = Inr []
   \<and> buildColumnChunkMetadataSegments no_structure_file = Inr []
   \<and> buildColumnIndexSegments no_structure_file = Inr []
   \<and> buildMetadataStructureSegments no_structure_file = Inr []
   \<and> buildColumnChunkSegments no_structure_file 0 = Inr []
   \<and> buildPageSegments no_structure_file 0 0 = Inr []
   \<and> buildKeyValueMetadataSegments bare_metadata_file = Inr []
   \<and> buildAllSchemaElementSegments bare_metadata_file = Inr []
   \<and> buildMetadataStructureSegments bare_metadata_file = Inr []"
proof -
  have a: "row_groups_of no_structure_file = None" "inner_metadata no_structure_file = None"
    "extractColumnIndicesInfo no_structure_file = []" "all_chunks no_structure_file = []"
    by (simp_all add: no_structure_file_def row_groups_of_def inner_metadata_def
        extractColumnIndicesInfo_def all_chunks_def)
  have b: "inner_metadata bare_metadata_file = Some bare_metadata"
    "schema_root bare_metadata = None" "row_groups bare_metadata = None"
    "key_value_metadata bare_metadata = None"
    by (simp_all add: bare_metadata_file_def bare_metadata_def inner_metadata_def)
  from missing_structure_degrades [of no_structure_file] a
    missing_structure_degrades [of bare_metadata_file] b
  show ?thesis by simp
qed

text \<open>
  Where the claim as stated fails: with the empty chunk array and no metadata, the
  overview builder throws (the metadata size falls back to 1024 on a 100-byte file), and
  so does \<open>buildAll\<close>.
\<close>

theorem overview_throws_without_structure:
  "column_chunks no_structure_file = Some [] \<and> metadata no_structure_file = None
   \<and> buildOverviewSegments no_structure_file = Inl (EndBeforeStart (- 932) 4)
   \<and> buildAll no_structure_file = Inl (EndBeforeStart (- 932) 4)"
proof -
  have "buildOverviewSegments no_structure_file = Inl (EndBeforeStart (- 932) 4)"
    by (simp add: buildOverviewSegments_def no_structure_file_def rowGroupsStart_def
        rowGroupsEnd_def has_chunk_data_def metadataSize_def inner_metadata_def
        ParquetSegment_def validate_def bad_index_def MAGIC_SIZE_def FOOTER_SIZE_def)
  then show ?thesis
    by (simp add: buildAll_def bindE_def no_structure_file_def)
qed

section \<open>Properties of getSegmentsForLevel\<close>

text \<open>The level names of the \<open>switch\<close>, and those that read the parent id.\<close>

definition known_levels :: "string list" where
  "known_levels =
     [''overview'', ''metadatastructure'', ''schemaelements'', ''rowgroupelements'',
      ''indexelements'', ''keyvaluemetadata'', ''rowgroups'', ''columnchunks'',
      ''columnchunkmetadata'', ''pages'']"

definition child_levels :: "string list" where
  "child_levels =
     [''schemaelements'', ''rowgroupelements'', ''indexelements'', ''keyvaluemetadata'',
      ''columnchunks'', ''columnchunkmetadata'', ''pages'']"

text \<open>The bucket object of a level that is looked up by the parent id itself.\<close>

definition id_keyed_bucket :: "hierarchy_cache \<Rightarrow> string \<Rightarrow> (string \<times> segment list) list option" where
  "id_keyed_bucket c level =
     (if level = ''schemaelements'' then Some (schemaelements c)
      else if level = ''rowgroupelements'' then Some (rowgroupelements c)
      else if level = ''indexelements'' then Some (indexelements c)
      else if level = ''keyvaluemetadata'' then Some (keyvaluemetadata c)
      else None)"

lemma lookupBucket_cases:
  "(\<exists>segs. lookupBucket b parentId = Segments segs)
   \<or> (\<exists>p. parentId = Some p \<and> p \<in> set object_prototype_members
          \<and> lookupBucket b parentId = InheritedMember p)"
  by (auto simp: lookupBucket_def split: option.splits)

lemma lookupBucket_absent:
  "map_of b p = None \<Longrightarrow> p \<notin> set object_prototype_members \<Longrightarrow> lookupBucket b (Some p) = Segments []"
  by (simp add: lookupBucket_def)

lemma lookupBucket_falsy: "parentId = None \<or> parentId = Some [] \<Longrightarrow> lookupBucket b parentId = Segments []"
  by (auto simp: lookupBucket_def)

lemma gsl_levels:
  "getSegmentsForLevel c ''overview'' q = Segments (overview c)"
  "getSegmentsForLevel c ''metadatastructure'' q = Segments (metadatastructure c)"
  "getSegmentsForLevel c ''schemaelements'' q = lookupBucket (schemaelements c) q"
  "getSegmentsForLevel c ''rowgroupelements'' q = lookupBucket (rowgroupelements c) q"
  "getSegmentsForLevel c ''indexelements'' q = lookupBucket (indexelements c) q"
  "getSegmentsForLevel c ''keyvaluemetadata'' q = lookupBucket (keyvaluemetadata c) q"
  "getSegmentsForLevel c ''rowgroups'' q = Segments (rowgroups c)"
  by (simp_all add: getSegmentsForLevel_def)

lemma gsl_columnchunks:
  "getSegmentsForLevel c ''columnchunks'' q =
     (case q of
        None \<Rightarrow> Segments []
      | Some p \<Rightarrow>
          if p \<noteq> [] \<and> startsWith p ''rowgroup_'' \<and> \<not> includesStr p ''meta''
          then Segments (lookupRowGroup (columnchunks c)
                           (parseInt (at_index (splitStr CHR ''_'' p) 1)))
          else Segments [])"
  by (simp add: getSegmentsForLevel_def)

lemma gsl_columnchunkmetadata:
  "getSegmentsForLevel c ''columnchunkmetadata'' q =
     (case q of
        None \<Rightarrow> Segments []
      | Some p \<Rightarrow>
          if p \<noteq> [] \<and> startsWith p ''rowgroup_meta_''
          then Segments (lookupOrEmpty (columnchunkmetadata c) p)
          else Segments [])"
  by (simp add: getSegmentsForLevel_def)

lemma gsl_pages:
  "getSegmentsForLevel c ''pages'' q =
     (case q of
        None \<Rightarrow> Segments []
      | Some p \<Rightarrow>
          if p \<noteq> [] \<and> includesStr p ''chunk_''
          then Segments (lookupOrEmpty (pages c)
                 (number_string (parseInt (at_index (splitStr CHR ''_'' p) 1)) @ ''_''
                  @ number_string (parseInt (at_index (splitStr CHR ''_'' p) 2))))
          else Segments [])"
  by (cases q) (simp_all add: getSegmentsForLevel_def Let_def)

lemma gsl_unknown:
  "level \<notin> set [''overview'', ''metadatastructure'', ''schemaelements'', ''rowgroupelements'',
      ''indexelements'', ''keyvaluemetadata'', ''rowgroups'', ''columnchunks'',
      ''columnchunkmetadata'', ''pages''] \<Longrightarrow> getSegmentsForLevel c level q = Segments []"
  by (simp add: getSegmentsForLevel_def)

lemma gsl_keyed:
  assumes "id_keyed_bucket c level = Some b"
  shows "getSegmentsForLevel c level q = lookupBucket b q"
proof -
  from assms consider "level = ''schemaelements''" "b = schemaelements c"
    | "level = ''rowgroupelements''" "b = rowgroupelements c"
    | "level = ''indexelements''" "b = indexelements c"
    | "level = ''keyvaluemetadata''" "b = keyvaluemetadata c"
    by (auto simp: id_keyed_bucket_def split: if_splits)
  then show ?thesis by cases (simp_all only: gsl_levels)
qed

lemma gsl_unkeyed:
  assumes "id_keyed_bucket c level = None"
  shows "\<exists>segs. getSegmentsForLevel c level q = Segments segs"
proof -
  consider "level = ''overview''" | "level = ''metadatastructure''" | "level = ''rowgroups''"
    | "level = ''columnchunks''" | "level = ''columnchunkmetadata''" | "level = ''pages''"
    | "level \<in> set [''schemaelements'', ''rowgroupelements'', ''indexelements'', ''keyvaluemetadata'']"
    | "level \<notin> set [''overview'', ''metadatastructure'', ''schemaelements'', ''rowgroupelements'',
      ''indexelements'', ''keyvaluemetadata'', ''rowgroups'', ''columnchunks'',
      ''columnchunkmetadata'', ''pages'']"
    by auto
  then show ?thesis
  proof cases
    case 1 then show ?thesis by (simp only: gsl_levels) blast
  next
    case 2 then show ?thesis by (simp only: gsl_levels) blast
  next
    case 3 then show ?thesis by (simp only: gsl_levels) blast
  next
    case 4 then show ?thesis by (cases q) (simp_all add: gsl_columnchunks)
  next
    case 5 then show ?thesis by (cases q) (simp_all add: gsl_columnchunkmetadata)
  next
    case 6 then show ?thesis by (cases q) (simp_all add: gsl_pages)
  next
    case 7 with assms show ?thesis by (auto simp: id_keyed_bucket_def)
  next
    case 8 then show ?thesis by (simp add: gsl_unknown)
  qed
qed

text \<open>
  What \<open>getSegmentsForLevel\<close> returns on every cache: an array, or on the four id-keyed
  levels the inherited member that a parent id naming a member of \<open>Object.prototype\<close>
  finds. A level name outside the known set gives the empty array; on every child-scoped
  level a \<open>null\<close> or empty parent id gives the empty array; on an id-keyed level so does
  a parent id that is no key of the bucket and no prototype member; on
  \<open>columnchunkmetadata\<close> a parent id that does not start with \<open>rowgroup_meta_\<close> or is no
  key; on \<open>columnchunks\<close> a parent id that does not start with \<open>rowgroup_\<close> or contains
  \<open>meta\<close>; on \<open>pages\<close> a parent id that does not contain \<open>chunk_\<close>.
\<close>

lemma getSegmentsForLevel_shape:
  "((\<exists>segs. getSegmentsForLevel c level parentId = Segments segs)
      \<or> (\<exists>p b. parentId = Some p \<and> p \<in> set object_prototype_members
               \<and> id_keyed_bucket c level = Some b
               \<and> getSegmentsForLevel c level parentId = InheritedMember p))
   \<and> (level \<notin> set known_levels \<longrightarrow> getSegmentsForLevel c level parentId = Segments [])
   \<and> (level \<in> set child_levels \<and> (parentId = None \<or> parentId = Some []) \<longrightarrow>
         getSegmentsForLevel c level parentId = Segments [])
   \<and> (\<forall>b p. id_keyed_bucket c level = Some b \<and> parentId = Some p \<and> map_of b p = None
             \<and> p \<notin> set object_prototype_members \<longrightarrow>
         getSegmentsForLevel c level parentId = Segments [])
   \<and> (\<forall>p. level = ''columnchunkmetadata'' \<and> parentId = Some p
           \<and> (\<not> startsWith p ''rowgroup_meta_'' \<or> map_of (columnchunkmetadata c) p = None) \<longrightarrow>
         getSegmentsForLevel c level parentId = Segments [])
   \<and> (\<forall>p. level = ''columnchunks'' \<and> parentId = Some p
           \<and> (\<not> startsWith p ''rowgroup_'' \<or> includesStr p ''meta'') \<longrightarrow>
         getSegmentsForLevel c level parentId = Segments [])
   \<and> (\<forall>p. level = ''pages'' \<and> parentId = Some p \<and> \<not> includesStr p ''chunk_'' \<longrightarrow>
         getSegmentsForLevel c level parentId = Segments [])"
proof (intro conjI impI allI)
  show "(\<exists>segs. getSegmentsForLevel c level parentId = Segments segs)
      \<or> (\<exists>p b. parentId = Some p \<and> p \<in> set object_prototype_members
               \<and> id_keyed_bucket c level = Some b
               \<and> getSegmentsForLevel c level parentId = InheritedMember p)"
  proof (cases "id_keyed_bucket c level")
    case None
    then show ?thesis by (simp add: gsl_unkeyed)
  next
    case (Some b)
    with lookupBucket_cases [of b parentId] show ?thesis
      by (auto simp: gsl_keyed)
  qed
next
  assume "level \<notin> set known_levels"
  then show "getSegmentsForLevel c level parentId = Segments []"
    by (simp add: gsl_unknown known_levels_def)
next
  assume a: "level \<in> set child_levels \<and> (parentId = None \<or> parentId = Some [])"
  then have f: "lookupBucket b parentId = Segments []" for b
    by (simp add: lookupBucket_falsy)
  from a have q: "parentId = None \<or> parentId = Some []" by simp
  from a have "level \<in> set child_levels" by simp
  then have "level = ''schemaelements'' \<or> level = ''rowgroupelements''
      \<or> level = ''indexelements'' \<or> level = ''keyvaluemetadata'' \<or> level = ''columnchunks''
      \<or> level = ''columnchunkmetadata'' \<or> level = ''pages''"
    by (simp add: child_levels_def)
  then show "getSegmentsForLevel c level parentId = Segments []"
  proof (elim disjE)
    assume "level = ''schemaelements''"
    then show ?thesis by (simp only: gsl_levels f)
  next
    assume "level = ''rowgroupelements''"
    then show ?thesis by (simp only: gsl_levels f)
  next
    assume "level = ''indexelements''"
    then show ?thesis by (simp only: gsl_levels f)
  next
    assume "level = ''keyvaluemetadata''"
    then show ?thesis by (simp only: gsl_levels f)
  next
    assume l: "level = ''columnchunks''"
    from q show ?thesis unfolding l gsl_columnchunks by (elim disjE) simp_all
  next
    assume l: "level = ''columnchunkmetadata''"
    from q show ?thesis unfolding l gsl_columnchunkmetadata by (elim disjE) simp_all
  next
    assume l: "level = ''pages''"
    from q show ?thesis unfolding l gsl_pages by (elim disjE) simp_all
  qed
next
  fix b p
  assume a: "id_keyed_bucket c level = Some b \<and> parentId = Some p \<and> map_of b p = None
             \<and> p \<notin> set object_prototype_members"
  then show "getSegmentsForLevel c level parentId = Segments []"
    by (simp add: gsl_keyed lookupBucket_absent)
next
  fix p
  assume "level = ''columnchunkmetadata'' \<and> parentId = Some p
           \<and> (\<not> startsWith p ''rowgroup_meta_'' \<or> map_of (columnchunkmetadata c) p = None)"
  then show "getSegmentsForLevel c level parentId = Segments []"
    by (auto simp: gsl_columnchunkmetadata lookupOrEmpty_def)
next
  fix p
  assume "level = ''columnchunks'' \<and> parentId = Some p
           \<and> (\<not> startsWith p ''rowgroup_'' \<or> includesStr p ''meta'')"
  then show "getSegmentsForLevel c level parentId = Segments []"
    by (auto simp: gsl_columnchunks)
next
  fix p
  assume "level = ''pages'' \<and> parentId = Some p \<and> \<not> includesStr p ''chunk_''"
  then show "getSegmentsForLevel c level parentId = Segments []"
    by (auto simp: gsl_pages)
qed

text \<open>
  On \<open>columnchunks\<close> and \<open>pages\<close> the parent id is parsed into indices: when the parsed
  row-group index is \<open>NaN\<close>, negative or no key of the bucket, and when the key made of
  the two parsed indices is no key of the page bucket, the result is the empty array.
\<close>

lemma lookupRowGroup_empty:
  "lookupRowGroup b None = []"
  "i < 0 \<Longrightarrow> lookupRowGroup b (Some i) = []"
  "map_of b (nat i) = None \<Longrightarrow> lookupRowGroup b (Some i) = []"
  by (simp_all add: lookupRowGroup_def lookupOrEmpty_def)

lemma getSegmentsForLevel_unknown_index:
  "lookupRowGroup (columnchunks c) (parseInt (at_index (splitStr CHR ''_'' p) 1)) = [] \<Longrightarrow>
   getSegmentsForLevel c ''columnchunks'' (Some p) = Segments []"
  "map_of (pages c)
     (number_string (parseInt (at_index (splitStr CHR ''_'' p) 1)) @ ''_''
      @ number_string (parseInt (at_index (splitStr CHR ''_'' p) 2))) = None \<Longrightarrow>
   getSegmentsForLevel c ''pages'' (Some p) = Segments []"
  by (simp_all add: gsl_columnchunks gsl_pages lookupOrEmpty_def)

text \<open>
  A payload with one row group and one column chunk that has a dictionary page, and the
  cache that \<open>buildAll\<close> makes of it.
\<close>

definition paged_input :: file_data where
  "paged_input =
     \<lparr>filesize = 2000,
      column_chunks = Some [\<lparr>path_in_schema = ''a'', start_offset = 4, total_byte_size = 100,
         dictionary_page = Some \<lparr>page_start_offset = 4, header_size = Some 10,
                                  compressed_page_size = Some 20\<rparr>,
         data_pages = None, index_pages = None\<rparr>],
      metadata = Some \<lparr>md_total_byte_size = Some 100, md_start_offset = None,
        md_metadata = Some \<lparr>schema_root = None,
          row_groups = Some [\<lparr>rg_byte_length = None, rg_column_chunks = None\<rparr>],
          key_value_metadata = None, json_length = 2\<rparr>\<rparr>\<rparr>"

definition dict_page_segment :: segment where
  "dict_page_segment =
     \<lparr>seg_id = ''page_dict_0_0'', seg_name = ''DICT'', seg_start = 4, seg_end = 34,
      rowGroupIndex = Some 0, chunkIndex = Some 0, pageIndex = Some 0, columnPath = None\<rparr>"

definition chunk_a_segment :: segment where
  "chunk_a_segment =
     \<lparr>seg_id = ''chunk_0_0'', seg_name = ''a'', seg_start = 4, seg_end = 104,
      rowGroupIndex = Some 0, chunkIndex = Some 0, pageIndex = None, columnPath = Some ''a''\<rparr>"

definition paged_cache :: hierarchy_cache where
  "paged_cache =
     \<lparr>overview =
        [plain_segment ''header_magic'' ''MAGIC'' 0 4,
         plain_segment ''rowgroups'' ''ROWGROUPS'' 4 104,
         plain_segment ''metadata'' ''METADATA'' 104 1992,
         plain_segment ''footer'' ''FOOTER'' 1992 1996,
         plain_segment ''footer_magic'' ''MAGIC'' 1996 2000],
      rowgroups = [(plain_segment ''rowgroup_0'' ''RG0'' 4 104)\<lparr>rowGroupIndex := Some 0\<rparr>],
      columnchunks = [(0, [chunk_a_segment])],
      pages = [(''0_0'', [dict_page_segment])],
      metadatastructure = [plain_segment ''row_groups_metadata'' ''ROW GROUP METADATA'' 0 200],
      schemaelements = [],
      rowgroupelements =
        [(''row_groups_metadata'',
          [(plain_segment ''rowgroup_meta_0'' ''ROW GROUP 0'' 600 800)\<lparr>rowGroupIndex := Some 0\<rparr>])],
      indexelements = [],
      keyvaluemetadata = [],
      columnchunkmetadata = [(''rowgroup_meta_0'', [])]\<rparr>"

lemma paged_input_cache: "buildAll paged_input = Inr paged_cache"
  by code_simp

lemma paged_cache_lookups:
  "findSegment paged_cache ''xchunk_0_0'' = None"
  "findSegment paged_cache ''rowgroup_0_zz'' = None"
  "getSegmentsForLevel paged_cache ''pages'' (Some ''xchunk_0_0'') = Segments [dict_page_segment]"
  "getSegmentsForLevel paged_cache ''columnchunks'' (Some ''rowgroup_0_zz'') = Segments [chunk_a_segment]"
  "getSegmentsForLevel paged_cache ''schemaelements'' (Some ''toString'') = InheritedMember ''toString''"
  "getSegmentsForLevel paged_cache ''pages'' (Some ''chunk_0_0'') = Segments [dict_page_segment]"
  "getSegmentsForLevel paged_cache ''columnchunks'' (Some ''rowgroup_0'') = Segments [chunk_a_segment]"
  by code_simp+

lemma paged_cache_unknown_ids:
  "getSegmentsForLevel paged_cache ''columnchunks'' (Some ''rowgroup_7'') = Segments []"
  "getSegmentsForLevel paged_cache ''columnchunks'' (Some ''rowgroup_abc'') = Segments []"
  "getSegmentsForLevel paged_cache ''columnchunks'' (Some ''rowgroup_meta_0'') = Segments []"
  "getSegmentsForLevel paged_cache ''pages'' (Some ''chunk_9_9'') = Segments []"
  "getSegmentsForLevel paged_cache ''pages'' (Some ''rowgroup_0'') = Segments []"
  "getSegmentsForLevel paged_cache ''pages'' None = Segments []"
  "getSegmentsForLevel paged_cache ''rowgroupelements'' (Some ''rowgroup_0'') = Segments []"
  "getSegmentsForLevel paged_cache ''columnchunkmetadata'' (Some ''chunk_0_0'') = Segments []"
  "getSegmentsForLevel paged_cache ''nosuchlevel'' (Some ''rowgroup_0'') = Segments []"
  by code_simp+

text \<open>
  The prefix tests are loose: \<open>xchunk_0_0\<close> and \<open>rowgroup_0_zz\<close> are ids of no segment,
  yet the first yields the pages of chunk \<open>chunk_0_0\<close> (the test is
  \<open>includes('chunk_')\<close>) and the second the chunks of \<open>rowgroup_0\<close> (only the field
  after the first underscore is parsed).
\<close>

lemma loose_parent_id_tests:
  "findSegment paged_cache ''xchunk_0_0'' = None"
  "findSegment paged_cache ''rowgroup_0_zz'' = None"
  "getSegmentsForLevel paged_cache ''pages'' (Some ''xchunk_0_0'') = Segments [dict_page_segment]"
  "getSegmentsForLevel paged_cache ''columnchunks'' (Some ''rowgroup_0_zz'') = Segments [chunk_a_segment]"
  by (rule paged_cache_lookups)+

lemma paged_cache_inherited:
  "getSegmentsForLevel paged_cache ''rowgroupelements'' (Some ''constructor'')
     = InheritedMember ''constructor''"
  "getSegmentsForLevel paged_cache ''indexelements'' (Some ''hasOwnProperty'')
     = InheritedMember ''hasOwnProperty''"
  "getSegmentsForLevel paged_cache ''keyvaluemetadata'' (Some ''valueOf'')
     = InheritedMember ''valueOf''"
  "findSegment paged_cache ''toString'' = None"
  by code_simp+

text \<open>
  C10 at an input where it fails. On the cache of that payload the level
  \<open>schemaelements\<close> is the empty object, and \<open>toString\<close> is the id of no segment. The
  lookup \<open>hierarchyCache.schemaelements[parentId]\<close> with the parent id \<open>toString\<close> finds
  the function that the bucket object inherits from \<open>Object.prototype\<close>; it is truthy,
  and \<open>getSegmentsForLevel\<close> returns it: not the empty array, and no array at all. The
  other three id-keyed levels do the same.
\<close>

theorem getSegmentsForLevel_returns_inherited_member:
  "buildAll paged_input = Inr paged_cache
   \<and> schemaelements paged_cache = []
   \<and> findSegment paged_cache ''toString'' = None
   \<and> getSegmentsForLevel paged_cache ''schemaelements'' (Some ''toString'')
       = InheritedMember ''toString''
   \<and> getSegmentsForLevel paged_cache ''schemaelements'' (Some ''toString'') \<noteq> Segments []
   \<and> getSegmentsForLevel paged_cache ''rowgroupelements'' (Some ''constructor'')
       = InheritedMember ''constructor''
   \<and> getSegmentsForLevel paged_cache ''indexelements'' (Some ''hasOwnProperty'')
       = InheritedMember ''hasOwnProperty''
   \<and> getSegmentsForLevel paged_cache ''keyvaluemetadata'' (Some ''valueOf'')
       = InheritedMember ''valueOf''"
  by (simp add: paged_input_cache paged_cache_lookups(5) paged_cache_inherited)
     (simp add: paged_cache_def)

section \<open>Properties of the navigation controller\<close>

lemma parent_linked_init: "parent_linked an (initWithData ov)"
  by (simp add: parent_linked_def initWithData_def)

lemma in_sync_init: "in_sync an (initWithData ov)"
  by (simp add: in_sync_def initWithData_def)

lemma levels_click:
  "levels (handleSegmentClick an vis s i) =
     (if selectedSegments vis i \<noteq> Some (seg_id s) \<and> segmentHasChildren an s
      then take (Suc i) (levels vis)
           @ [newLevel (the (childLevelName an s)) (seg_id s)
                (segmentsForLevel an (the (childLevelName an s)) (seg_id s))]
      else take (Suc i) (levels vis))"
  by (auto simp: handleSegmentClick_def Let_def segmentHasChildren_def addLevel_def
      switchChildLevels_def switchMultipleLevels_def removeLevelsFrom_def
      split: option.splits)

lemma path_click:
  "selectionPath (handleSegmentClick an vis s i) =
     (if selectedSegments vis i \<noteq> Some (seg_id s) then take i (selectionPath vis) @ [s]
      else take i (selectionPath vis))"
  by (simp add: handleSegmentClick_def Let_def)

lemma selected_click:
  "selectedSegments (handleSegmentClick an vis s i) =
     (\<lambda>k. if k = i \<and> selectedSegments vis i \<noteq> Some (seg_id s) then Some (seg_id s)
           else if i \<le> k \<and> k < length (levels vis) then None
           else selectedSegments vis k)"
  by (auto simp: handleSegmentClick_def Let_def fun_eq_iff)

lemma parent_linked_path_length:
  "parent_linked an vis \<Longrightarrow> i < length (levels vis) \<Longrightarrow> i \<le> length (selectionPath vis)"
  by (cases i) (auto simp: parent_linked_def)

lemma parent_linked_click:
  assumes J: "parent_linked an vis" and i: "i < length (levels vis)"
  shows "parent_linked an (handleSegmentClick an vis s i)"
proof -
  from J i have pl: "i \<le> length (selectionPath vis)"
    by (rule parent_linked_path_length)
  from J have old: "\<And>j. Suc j < length (levels vis) \<Longrightarrow>
        j < length (selectionPath vis)
      \<and> parentSegmentId (levels vis ! Suc j) = Some (seg_id (selectionPath vis ! j))
      \<and> segmentHasChildren an (selectionPath vis ! j)"
    and ne: "levels vis \<noteq> []"
    by (simp_all add: parent_linked_def)
  let ?v = "handleSegmentClick an vis s i"
  have ne': "levels ?v \<noteq> []" using ne i by (simp add: levels_click)
  have "j < length (selectionPath ?v)
      \<and> parentSegmentId (levels ?v ! Suc j) = Some (seg_id (selectionPath ?v ! j))
      \<and> segmentHasChildren an (selectionPath ?v ! j)"
    if sj: "Suc j < length (levels ?v)" for j
  proof (cases "j < i")
    case True
    then have "Suc j < length (levels vis)" using i by simp
    from old [OF this] True pl i show ?thesis
      by (simp add: levels_click path_click nth_append)
  next
    case False
    with sj i have ji: "j = i" and add: "selectedSegments vis i \<noteq> Some (seg_id s)"
      "segmentHasChildren an s"
      by (auto simp: levels_click min_def split: if_splits)
    with pl i show ?thesis
      by (simp add: levels_click path_click nth_append min_def newLevel_def)
  qed
  with ne' show ?thesis by (simp add: parent_linked_def)
qed

lemma parent_linked_key:
  assumes J: "parent_linked an vis"
  shows "parent_linked an (handleKeyDown vis k)"
proof -
  consider "k = ''Escape''" | "k = ''Backspace''" "length (levels vis) > 1"
    | "k = ''Backspace''" "\<not> length (levels vis) > 1" | "k \<noteq> ''Escape''" "k \<noteq> ''Backspace''"
    by blast
  then show ?thesis
  proof cases
    case 1
    with J show ?thesis
      by (auto simp: handleKeyDown_def parent_linked_def removeLevelsFrom_def)
  next
    case 2
    with J show ?thesis
      by (auto simp: handleKeyDown_def parent_linked_def removeLevelsFrom_def)
  next
    case 3
    with J show ?thesis by (simp add: handleKeyDown_def)
  next
    case 4
    with J show ?thesis by (simp add: handleKeyDown_def)
  qed
qed

lemma parent_linked_handle:
  "parent_linked an vis \<Longrightarrow> displayed vis e \<Longrightarrow> parent_linked an (handle an vis e)"
  by (cases e) (simp_all add: parent_linked_click parent_linked_key)

lemma in_sync_click:
  assumes J: "parent_linked an vis" and K: "in_sync an vis" and i: "i < length (levels vis)"
  shows "in_sync an (handleSegmentClick an vis s i)"
proof -
  from J i have pl: "i \<le> length (selectionPath vis)"
    by (rule parent_linked_path_length)
  from J have old: "\<And>j. Suc j < length (levels vis) \<Longrightarrow>
        segmentHasChildren an (selectionPath vis ! j)"
    by (simp add: parent_linked_def)
  from K have sel: "\<And>k. selectedSegments vis k =
       (if k < length (selectionPath vis) then Some (seg_id (selectionPath vis ! k)) else None)"
    and len: "length (selectionPath vis) \<le> length (levels vis)"
    by (simp_all add: in_sync_def)
  let ?v = "handleSegmentClick an vis s i"
  have a: "Suc j < length (levels ?v)"
    if "j < length (selectionPath ?v)" "segmentHasChildren an (selectionPath ?v ! j)" for j
    using that pl i by (auto simp: levels_click path_click nth_append min_def split: if_splits)
  have b: "selectedSegments ?v k =
       (if k < length (selectionPath ?v) then Some (seg_id (selectionPath ?v ! k)) else None)" for k
    using pl i len sel [of k]
    by (auto simp: selected_click path_click nth_append min_def)
  have c: "length (selectionPath ?v) \<le> length (levels ?v)"
    using pl i by (auto simp: levels_click path_click min_def)
  from a b c show ?thesis by (simp add: in_sync_def)
qed

lemma in_sync_escape: "in_sync an (handleKeyDown vis ''Escape'')"
  by (simp add: in_sync_def handleKeyDown_def)

lemma in_sync_other_key:
  "in_sync an vis \<Longrightarrow> k \<noteq> ''Backspace'' \<Longrightarrow> in_sync an (handleKeyDown vis k)"
  by (cases "k = ''Escape''") (simp_all add: in_sync_escape, simp add: handleKeyDown_def)

lemma in_sync_handle:
  "parent_linked an vis \<Longrightarrow> in_sync an vis \<Longrightarrow> displayed vis e \<Longrightarrow> e \<noteq> Key ''Backspace'' \<Longrightarrow>
   in_sync an (handle an vis e)"
  by (cases e) (simp_all add: in_sync_click in_sync_other_key)

lemma parent_linked_run:
  "parent_linked an vis \<Longrightarrow> possible an vis es \<Longrightarrow> parent_linked an (run an vis es)"
  by (induction es arbitrary: vis) (simp_all add: parent_linked_handle)

lemma in_sync_run:
  "parent_linked an vis \<Longrightarrow> in_sync an vis \<Longrightarrow> possible an vis es \<Longrightarrow>
   Key ''Backspace'' \<notin> set es \<Longrightarrow> in_sync an (run an vis es)"
proof (induction es arbitrary: vis)
  case Nil
  then show ?case by simp
next
  case (Cons e es)
  from Cons.prems have "parent_linked an (handle an vis e)" "in_sync an (handle an vis e)"
    by (auto intro: parent_linked_handle in_sync_handle)
  with Cons show ?case by simp
qed

lemma count_displayed:
  assumes "parent_linked an vis"
  shows "length (filter (hasDisplayedChild vis) [0..<length (selectionPath vis)])
         = length (levels vis) - 1"
proof -
  let ?n = "length (levels vis) - 1"
  from assms have "levels vis \<noteq> []" by (simp add: parent_linked_def)
  then have "?n < length (levels vis)" by simp
  with assms have le: "?n \<le> length (selectionPath vis)"
    by (rule parent_linked_path_length)
  have "hasDisplayedChild vis j \<longleftrightarrow> j < ?n" if "j < length (selectionPath vis)" for j
    using assms that by (auto simp: hasDisplayedChild_def parent_linked_def)
  then have "filter (hasDisplayedChild vis) [0..<length (selectionPath vis)]
             = filter (\<lambda>j. j < ?n) [0..<length (selectionPath vis)]"
    by (intro filter_cong) auto
  also have "\<dots> = [0..<?n]"
  proof -
    have "[0..<length (selectionPath vis)] = [0..<?n] @ [?n..<length (selectionPath vis)]"
      using le by (metis le_add_diff_inverse upt_add_eq_append zero_le)
    then show ?thesis by simp
  qed
  finally show ?thesis by simp
qed


text \<open>
  C2 (as amended). After any sequence of clicks on displayed segments, Escape and
  Backspace, the root is displayed and every level below it belongs to the path segment
  one index above it, which has children: the levels follow the selection path from the
  root down without gaps, and the number of displayed levels is one plus the number of
  path segments that have a displayed child level. After a sequence without Backspace,
  moreover, every path segment that has children has its child level displayed, and the
  selection map holds an entry exactly for the indices of the path (none for a removed
  level).
\<close>

theorem navigation_stack_invariant:
  assumes "possible an (initWithData ov) es"
  shows "parent_linked an (run an (initWithData ov) es)
    \<and> length (levels (run an (initWithData ov) es))
        = 1 + length (filter (hasDisplayedChild (run an (initWithData ov) es))
                        [0..<length (selectionPath (run an (initWithData ov) es))])
    \<and> (Key ''Backspace'' \<notin> set es \<longrightarrow> in_sync an (run an (initWithData ov) es))"
proof -
  let ?v = "run an (initWithData ov) es"
  have J: "parent_linked an ?v"
    using parent_linked_init assms by (rule parent_linked_run)
  then have "levels ?v \<noteq> []" by (simp add: parent_linked_def)
  then have "length (levels ?v) = 1 + (length (levels ?v) - 1)" by (cases "levels ?v") simp_all
  with count_displayed [OF J] have
    "length (levels ?v) = 1 + length (filter (hasDisplayedChild ?v) [0..<length (selectionPath ?v)])"
    by simp
  moreover have "Key ''Backspace'' \<notin> set es \<longrightarrow> in_sync an ?v"
    using in_sync_run [OF parent_linked_init in_sync_init assms] by blast
  ultimately show ?thesis using J by blast
qed

text \<open>
  A two-level hierarchy for the examples: the overview segment \<open>A\<close> has one child \<open>B\<close>
  on the level \<open>rowgroups\<close>, and \<open>B\<close> has no children.
\<close>

definition seg_named :: "string \<Rightarrow> segment" where
  "seg_named n =
     \<lparr>seg_id = n, seg_name = n, seg_start = 0, seg_end = 10,
      rowGroupIndex = None, chunkIndex = None, pageIndex = None, columnPath = None\<rparr>"

definition two_levels :: analyzer where
  "two_levels =
     \<lparr>childLevelName = (\<lambda>s. if seg_id s = ''A'' then Some ''rowgroups'' else None),
      segmentsForLevel = (\<lambda>name parent.
         if name = ''rowgroups'' \<and> parent = ''A'' then [seg_named ''B''] else [])\<rparr>"

definition drill_and_back :: "event list" where
  "drill_and_back = [Click (seg_named ''A'') 0, Click (seg_named ''B'') 1, Key ''Backspace'']"

lemma seg_id_named: "seg_id (seg_named n) = n"
  by (simp add: seg_named_def)

lemma two_levels_children:
  "segmentHasChildren two_levels (seg_named ''A'')"
  "\<not> segmentHasChildren two_levels (seg_named ''B'')"
  "childLevelName two_levels (seg_named ''A'') = Some ''rowgroups''"
  "segmentsForLevel two_levels ''rowgroups'' ''A'' = [seg_named ''B'']"
  by (simp_all add: segmentHasChildren_def two_levels_def seg_named_def)

lemma drill_and_back_run:
  "run two_levels (initWithData [seg_named ''A'']) drill_and_back =
     \<lparr>levels = [\<lparr>level_name = ''overview'', parentSegmentId = None,
                  level_segments = [seg_named ''A'']\<rparr>],
      selectedSegments = (\<lambda>i. None)(0 \<mapsto> ''A'', 1 \<mapsto> ''B''),
      selectionPath = [seg_named ''A'', seg_named ''B'']\<rparr>"
  by (simp add: drill_and_back_def initWithData_def handleSegmentClick_def handleKeyDown_def
      Let_def two_levels_children seg_id_named addLevel_def newLevel_def
      removeLevelsFrom_def fun_eq_iff)

lemma drill_and_back_possible: "possible two_levels (initWithData [seg_named ''A'']) drill_and_back"
  by (simp add: drill_and_back_def initWithData_def handleSegmentClick_def
      Let_def two_levels_children seg_id_named addLevel_def newLevel_def)

text \<open>
  Where the claim as stated fails: click \<open>A\<close>, click its child \<open>B\<close>, press Backspace.
  One level is displayed; the path still holds \<open>A\<close>, which has children, with no level
  for them, and the selection map still holds \<open>B\<close> at index 1, a removed level.
\<close>

theorem backspace_leaves_stale_selection:
  "possible two_levels (initWithData [seg_named ''A'']) drill_and_back
   \<and> length (levels (run two_levels (initWithData [seg_named ''A'']) drill_and_back)) = 1
   \<and> selectionPath (run two_levels (initWithData [seg_named ''A'']) drill_and_back)
       = [seg_named ''A'', seg_named ''B'']
   \<and> segmentHasChildren two_levels (seg_named ''A'')
   \<and> selectedSegments (run two_levels (initWithData [seg_named ''A'']) drill_and_back) 1 = Some ''B''"
  by (simp add: drill_and_back_possible drill_and_back_run two_levels_children)

theorem navigation_stack_invariant_witness:
  "possible two_levels (initWithData [seg_named ''A''])
     [Click (seg_named ''A'') 0, Click (seg_named ''B'') 1]
   \<and> Key ''Backspace'' \<notin> set [Click (seg_named ''A'') 0, Click (seg_named ''B'') 1]
   \<and> parent_linked two_levels
       (run two_levels (initWithData [seg_named ''A''])
          [Click (seg_named ''A'') 0, Click (seg_named ''B'') 1])
   \<and> in_sync two_levels
       (run two_levels (initWithData [seg_named ''A''])
          [Click (seg_named ''A'') 0, Click (seg_named ''B'') 1])
   \<and> length (levels (run two_levels (initWithData [seg_named ''A''])
          [Click (seg_named ''A'') 0, Click (seg_named ''B'') 1])) = 2"
proof -
  let ?es = "[Click (seg_named ''A'') 0, Click (seg_named ''B'') 1]"
  have p: "possible two_levels (initWithData [seg_named ''A'']) ?es"
    by (simp add: initWithData_def handleSegmentClick_def
        Let_def two_levels_children seg_id_named addLevel_def newLevel_def)
  have n: "Key ''Backspace'' \<notin> set ?es" by simp
  have l: "length (levels (run two_levels (initWithData [seg_named ''A'']) ?es)) = 2"
    by (simp add: initWithData_def handleSegmentClick_def
        Let_def two_levels_children seg_id_named addLevel_def newLevel_def)
  from navigation_stack_invariant [OF p] n l p show ?thesis by blast
qed


section \<open>Properties of the layout calculator\<close>

text \<open>The configuration values the width computation relies on (\<open>validateConfig\<close> enforces them).\<close>

definition valid_config :: "layout_config \<Rightarrow> bool" where
  "valid_config config =
     (0 \<le> STARTING_BASELINE config \<and> 0 \<le> MAX_MIN_SEGMENT_WIDTH config
      \<and> 0 < LOG_SCALE_FACTOR config)"

lemma length_minWidths:
  "length (calculateLogarithmicMinWidths segs t W cfg) = length segs"
  by (simp add: calculateLogarithmicMinWidths_def Let_def logarithmicWidths_def clampedSizes_def)

lemma sum_list_const_map: "sum_list (map (\<lambda>x. c) xs) = real (length xs) * (c::real)"
  by (induction xs) (simp_all add: algebra_simps)

lemma sum_list_scaled: "sum_list (map (\<lambda>w. w * (c::real)) ws) = sum_list ws * c"
  by (induction ws) (simp_all add: algebra_simps)

lemma adjustedBaseline_le:
  "segs \<noteq> [] \<Longrightarrow> adjustedBaseline segs W cfg \<le> W / real (length segs)"
  by (simp add: adjustedBaseline_def Let_def)

lemma adjustedBaseline_nonneg:
  "segs \<noteq> [] \<Longrightarrow> 0 < W \<Longrightarrow> valid_config cfg \<Longrightarrow> 0 \<le> adjustedBaseline segs W cfg"
  by (auto simp: adjustedBaseline_def Let_def valid_config_def)

lemma sum_minWidths_le:
  assumes "segs \<noteq> []" and "0 < W"
  shows "sum_list (calculateLogarithmicMinWidths segs t W cfg) \<le> W"
proof -
  let ?n = "real (length segs)"
  from assms have n: "0 < ?n" by simp
  let ?b = "adjustedBaseline segs W cfg"
  let ?ws = "logarithmicWidths segs W cfg"
  have u: "sum_list (map (\<lambda>s. W / ?n) segs) = W"
    using n by (simp add: sum_list_const_map)
  have "?n * ?b \<le> ?n * (W / ?n)"
    using n adjustedBaseline_le [OF assms(1)] by (intro mult_left_mono) simp_all
  then have b: "sum_list (map (\<lambda>s. ?b) segs) \<le> W"
    using n by (simp add: sum_list_const_map)
  have s: "sum_list (map (\<lambda>w. w * (W / sum_list ?ws)) ?ws) \<le> W" if "W < sum_list ?ws"
  proof -
    have "sum_list (map (\<lambda>w. w * (W / sum_list ?ws)) ?ws) = sum_list ?ws * (W / sum_list ?ws)"
      by (rule sum_list_scaled)
    also have "\<dots> = W" using that assms(2) by simp
    finally show ?thesis by simp
  qed
  show ?thesis
  proof (cases "?b < MIN_SEGMENT_WIDTH cfg")
    case True
    then show ?thesis using u by (simp add: calculateLogarithmicMinWidths_def)
  next
    case nb: False
    show ?thesis
    proof (cases "Math_min (clampedSizes segs) = Math_max (clampedSizes segs)")
      case True
      with nb show ?thesis using b by (simp add: calculateLogarithmicMinWidths_def)
    next
      case ne: False
      show ?thesis
      proof (cases "W < sum_list ?ws")
        case True
        with nb ne s show ?thesis by (simp add: calculateLogarithmicMinWidths_def Let_def)
      next
        case False
        with nb ne show ?thesis by (simp add: calculateLogarithmicMinWidths_def Let_def)
      qed
    qed
  qed
qed

lemma logarithmicWidth_nonneg:
  assumes b: "0 \<le> b" and cfg: "valid_config cfg"
    and lo: "1 \<le> lo" and x: "lo \<le> x" "x \<le> hi" and d: "lo < hi"
  shows "0 \<le> logarithmicWidth cfg b (log 10 lo) (log 10 hi) x"
proof -
  from cfg have M: "0 \<le> MAX_MIN_SEGMENT_WIDTH cfg" and f: "0 \<le> 1 / LOG_SCALE_FACTOR cfg"
    by (simp_all add: valid_config_def)
  have l1: "log 10 lo \<le> log 10 x" using lo x by simp
  have l2: "log 10 x \<le> log 10 hi" using lo x by simp
  have l3: "log 10 lo < log 10 hi" using lo d by simp
  let ?lp = "(log 10 x - log 10 lo) / (log 10 hi - log 10 lo)"
  have p0: "0 \<le> ?lp" using l1 l3 by simp
  have p1: "?lp \<le> 1" using l2 l3 by (simp add: divide_le_eq)
  let ?p = "?lp powr (1 / LOG_SCALE_FACTOR cfg)"
  have q0: "0 \<le> ?p" by simp
  have ab: "\<bar>?lp\<bar> = ?lp" using p0 by (rule abs_of_nonneg)
  have q1: "?p \<le> 1" by (rule powr_le1 [OF f]) (simp only: ab p1)
  have "logarithmicWidth cfg b (log 10 lo) (log 10 hi) x
        = b * (1 - ?p) + MAX_MIN_SEGMENT_WIDTH cfg * ?p"
    by (simp add: logarithmicWidth_def Let_def algebra_simps)
  moreover have "0 \<le> b * (1 - ?p)" using b q1 by simp
  moreover have "0 \<le> MAX_MIN_SEGMENT_WIDTH cfg * ?p" using M q0 by simp
  ultimately show ?thesis by linarith
qed

lemma logarithmicWidths_nonneg:
  assumes ne: "segs \<noteq> []" and W: "0 < W" and cfg: "valid_config cfg"
    and d: "Math_min (clampedSizes segs) \<noteq> Math_max (clampedSizes segs)"
    and w: "w \<in> set (logarithmicWidths segs W cfg)"
  shows "0 \<le> w"
proof -
  let ?sizes = "clampedSizes segs"
  from w obtain x where x: "x \<in> set ?sizes"
    and wx: "w = logarithmicWidth cfg (adjustedBaseline segs W cfg)
                   (log 10 (Math_min ?sizes)) (log 10 (Math_max ?sizes)) x"
    by (auto simp: logarithmicWidths_def)
  have fin: "finite (set ?sizes)" "set ?sizes \<noteq> {}" using ne by (simp_all add: clampedSizes_def)
  have lo1: "1 \<le> Math_min ?sizes"
    unfolding Math_min_def using fin by (subst Min_ge_iff) (auto simp: clampedSizes_def)
  have lox: "Math_min ?sizes \<le> x" unfolding Math_min_def using fin x by (intro Min_le) auto
  have xhi: "x \<le> Math_max ?sizes" unfolding Math_max_def using fin x by (intro Max_ge) auto
  from lox xhi d have lt: "Math_min ?sizes < Math_max ?sizes" by linarith
  from logarithmicWidth_nonneg [OF adjustedBaseline_nonneg [OF ne W cfg] cfg lo1 lox xhi lt] wx
  show ?thesis by simp
qed

lemma minWidths_nonneg:
  assumes ne: "segs \<noteq> []" and W: "0 < W" and cfg: "valid_config cfg"
    and m: "m \<in> set (calculateLogarithmicMinWidths segs t W cfg)"
  shows "0 \<le> m"
proof -
  let ?n = "real (length segs)"
  from ne have n: "0 < ?n" by simp
  let ?b = "adjustedBaseline segs W cfg"
  let ?ws = "logarithmicWidths segs W cfg"
  show ?thesis
  proof (cases "?b < MIN_SEGMENT_WIDTH cfg")
    case True
    with m W n show ?thesis by (auto simp: calculateLogarithmicMinWidths_def)
  next
    case nb: False
    show ?thesis
    proof (cases "Math_min (clampedSizes segs) = Math_max (clampedSizes segs)")
      case True
      with nb m adjustedBaseline_nonneg [OF ne W cfg] show ?thesis
        by (auto simp: calculateLogarithmicMinWidths_def)
    next
      case d: False
      show ?thesis
      proof (cases "W < sum_list ?ws")
        case True
        with nb d m obtain w where w: "w \<in> set ?ws" and mw: "m = w * (W / sum_list ?ws)"
          by (auto simp: calculateLogarithmicMinWidths_def Let_def)
        from True W have "0 \<le> W / sum_list ?ws" by simp
        with logarithmicWidths_nonneg [OF ne W cfg d w] have "0 \<le> w * (W / sum_list ?ws)"
          by (rule mult_nonneg_nonneg)
        with mw show ?thesis by (simp only:)
      next
        case False
        with nb d m have "m \<in> set ?ws"
          by (simp add: calculateLogarithmicMinWidths_def Let_def)
        then show ?thesis by (rule logarithmicWidths_nonneg [OF ne W cfg d])
      qed
    qed
  qed
qed


lemma zero_span_zero_sizes:
  assumes "totalSize segs = 0" and "s \<in> set segs"
  shows "seg_size s = 0"
proof -
  have "seg_end s \<le> Max (set (map seg_end segs))" using assms(2) by (intro Max_ge) auto
  moreover have "Min (set (map seg_start segs)) \<le> seg_start s" using assms(2) by (intro Min_le) auto
  ultimately show ?thesis
    using assms(1) by (simp add: totalSize_def Math_max_def Math_min_def seg_size_def)
qed

text \<open>Sums of numbers stay numbers.\<close>

lemma foldl_jadd_Num:
  "foldl jadd (Num a) (map (\<lambda>d. Num (f d)) ds) = Num (a + sum_list (map f ds))"
  by (induction ds arbitrary: a) (simp_all add: add.assoc)

lemma jsum_Num: "jsum (map (\<lambda>d. Num (f d)) ds) = Num (sum_list (map f ds))"
  by (simp add: jsum_def foldl_jadd_Num)


lemma sum_list_filter_split:
  "sum_list (map f ds) = sum_list (map f (filter P ds)) + sum_list (map f (filter (\<lambda>d. \<not> P d) ds))"
  for f :: "'a \<Rightarrow> real"
  by (induction ds) simp_all

lemma sum_list_strict:
  "ds \<noteq> [] \<Longrightarrow> (\<And>d. d \<in> set ds \<Longrightarrow> f d < g d) \<Longrightarrow> sum_list (map f ds) < sum_list (map g ds)"
  for f g :: "'a \<Rightarrow> real"
proof (induction ds)
  case Nil
  then show ?case by simp
next
  case (Cons d ds)
  show ?case
  proof (cases "ds = []")
    case True
    with Cons.prems show ?thesis by simp
  next
    case False
    with Cons have "sum_list (map f ds) < sum_list (map g ds)" by simp
    moreover from Cons.prems have "f d < g d" by simp
    ultimately show ?thesis by simp
  qed
qed

lemma sum_list_nonneg_zero:
  "(\<And>d. d \<in> set ds \<Longrightarrow> 0 \<le> f d) \<Longrightarrow> sum_list (map f ds) \<le> 0 \<Longrightarrow> d \<in> set ds \<Longrightarrow> f d = 0"
  for f :: "'a \<Rightarrow> real"
proof (induction ds)
  case Nil
  then show ?case by simp
next
  case (Cons a ds)
  have "0 \<le> sum_list (map f ds)" using Cons.prems(1) by (intro sum_list_nonneg) auto
  moreover have "0 \<le> f a" using Cons.prems(1) by simp
  ultimately have "f a = 0" "sum_list (map f ds) \<le> 0" using Cons.prems(2) by simp_all
  with Cons show ?case by auto
qed

lemma sum_list_all_zero:
  "(\<And>d. d \<in> set xs \<Longrightarrow> f d = 0) \<Longrightarrow> sum_list (map f xs) = 0" for f :: "'a \<Rightarrow> real"
  by (induction xs) simp_all

lemma sum_list_div_mult:
  "sum_list (map (\<lambda>d. f d / a * b) xs) = sum_list (map f xs) / a * b" for a b :: real
proof -
  have "(\<lambda>d. f d / a * b) = (\<lambda>d. f d * (b / a))" by (simp add: fun_eq_iff)
  then have "sum_list (map (\<lambda>d. f d / a * b) xs) = sum_list (map f xs) * (b / a)"
    by (simp only: sum_list_mult_const)
  then show ?thesis by simp
qed

lemma sum_list_mult_div_mult:
  "sum_list (map (\<lambda>d. f d * c / a * b) xs) = sum_list (map f xs) * (c / a * b)" for a b c :: real
proof -
  have "(\<lambda>d. f d * c / a * b) = (\<lambda>d. f d * (c / a * b))" by (simp add: fun_eq_iff)
  then show ?thesis by (simp only: sum_list_mult_const)
qed

lemma positions_length: "length (calculateSegmentPositions x cfg ds) = length ds"
  by (induction ds arbitrary: x) simp_all

lemma positions_widths:
  "map lo_width (calculateSegmentPositions x cfg ds) = map finalWidthPixels ds"
  by (induction ds arbitrary: x) simp_all

lemma positions_nth:
  "i < length ds \<Longrightarrow>
     lo_width (calculateSegmentPositions x cfg ds ! i) = finalWidthPixels (ds ! i)
   \<and> lo_isExpanded (calculateSegmentPositions x cfg ds ! i) = isExpanded (ds ! i)
   \<and> lo_naturalWidth (calculateSegmentPositions x cfg ds ! i) = naturalWidthPixels (ds ! i)
   \<and> lo_minWidth (calculateSegmentPositions x cfg ds ! i) = minWidth (ds ! i)"
proof (induction ds arbitrary: x i)
  case Nil
  then show ?case by simp
next
  case (Cons d ds)
  then show ?case by (cases i) simp_all
qed

lemma redistribute_length: "length (redistribute W ds) = length ds"
  by (simp add: redistribute_def)

lemma rescale_expanded: "isExpanded d \<Longrightarrow> rescale sf W d = d"
  by (simp add: rescale_def)

lemma rescale_fields:
  "isExpanded (rescale sf W d) = isExpanded d"
  "naturalWidthPixels (rescale sf W d) = naturalWidthPixels d"
  "minWidth (rescale sf W d) = minWidth d"
  by (simp_all add: rescale_def)

lemma redistribute_nth:
  assumes "i < length ds"
  shows "redistribute W ds ! i = ds ! i \<or> (\<exists>sf. redistribute W ds ! i = rescale sf W (ds ! i))"
  using assms by (auto simp: redistribute_def)

lemma redistribute_expanded:
  assumes "i < length ds" and "isExpanded (ds ! i)"
  shows "redistribute W ds ! i = ds ! i"
  using redistribute_nth [OF assms(1), of W] assms(2) by (auto simp: rescale_expanded)

lemma redistribute_fields:
  assumes "i < length ds"
  shows "isExpanded (redistribute W ds ! i) = isExpanded (ds ! i)"
    and "naturalWidthPixels (redistribute W ds ! i) = naturalWidthPixels (ds ! i)"
    and "minWidth (redistribute W ds ! i) = minWidth (ds ! i)"
  using redistribute_nth [OF assms, of W] by (auto simp: rescale_fields)

lemma segmentData_nth:
  assumes "i < length segs"
  shows "segmentData segs W cfg ! i =
           markExpanded W (initialData (totalSize segs) W
             (segs ! i, calculateLogarithmicMinWidths segs (totalSize segs) W cfg ! i))"
  using assms by (simp add: segmentData_def length_minWidths)

lemma segmentData_length: "length (segmentData segs W cfg) = length segs"
  by (simp add: segmentData_def length_minWidths)

lemma markExpanded_fields:
  "minWidth (markExpanded W d) = minWidth d"
  "naturalWidthPixels (markExpanded W d) = naturalWidthPixels d"
  "jlt (naturalWidthPixels d) (Num (minWidth d)) \<Longrightarrow>
     isExpanded (markExpanded W d) \<and> finalWidthPixels (markExpanded W d) = Num (minWidth d)"
  by (simp_all add: markExpanded_def Let_def)

text \<open>
  C6. For a non-empty segment list, every segment whose natural proportional width
  (\<open>size / totalSize * containerWidth\<close>) is below its floor (the value that
  \<open>calculateLogarithmicMinWidths\<close> returns for it, which for a positive container width sum
  to at most the container width) is marked expanded and has exactly its floor as width;
  the redistribution leaves every expanded record as it is.
\<close>

theorem expanded_segments_get_floor:
  assumes "i < length segs"
  shows "length (calculateSegmentWidths segs W cfg) = length segs
    \<and> lo_minWidth (calculateSegmentWidths segs W cfg ! i)
        = calculateLogarithmicMinWidths segs (totalSize segs) W cfg ! i
    \<and> lo_naturalWidth (calculateSegmentWidths segs W cfg ! i)
        = jmul (jdiv (Num (real_of_int (seg_size (segs ! i)))) (Num (real_of_int (totalSize segs))))
            (Num W)
    \<and> (jlt (lo_naturalWidth (calculateSegmentWidths segs W cfg ! i))
            (Num (calculateLogarithmicMinWidths segs (totalSize segs) W cfg ! i)) \<longrightarrow>
          lo_isExpanded (calculateSegmentWidths segs W cfg ! i)
        \<and> lo_width (calculateSegmentWidths segs W cfg ! i)
            = Num (calculateLogarithmicMinWidths segs (totalSize segs) W cfg ! i))
    \<and> (isExpanded (segmentData segs W cfg ! i) \<longrightarrow>
          redistribute W (segmentData segs W cfg) ! i = segmentData segs W cfg ! i)
    \<and> (0 < W \<longrightarrow>
          sum_list (calculateLogarithmicMinWidths segs (totalSize segs) W cfg) \<le> W)"
proof -
  let ?ds = "segmentData segs W cfg"
  let ?m = "calculateLogarithmicMinWidths segs (totalSize segs) W cfg ! i"
  let ?d0 = "initialData (totalSize segs) W (segs ! i, ?m)"
  let ?L = "calculateSegmentWidths segs W cfg"
  from assms have ne: "segs \<noteq> []" by auto
  have i: "i < length ?ds" using assms by (simp add: segmentData_length)
  then have ir: "i < length (redistribute W ?ds)" by (simp add: redistribute_length)
  have L: "?L = calculateSegmentPositions (Num 0) cfg (redistribute W ?ds)"
    using ne by (simp add: calculateSegmentWidths_def)
  have d: "?ds ! i = markExpanded W ?d0" using assms by (rule segmentData_nth)
  have d0: "minWidth ?d0 = ?m"
    "naturalWidthPixels ?d0
       = jmul (jdiv (Num (real_of_int (seg_size (segs ! i)))) (Num (real_of_int (totalSize segs))))
           (Num W)"
    by (simp_all add: initialData_def)
  have len: "length ?L = length segs"
    by (simp add: L positions_length redistribute_length segmentData_length)
  have mw: "lo_minWidth (?L ! i) = ?m"
    using positions_nth [OF ir, of "Num 0" cfg] redistribute_fields(3) [OF i, of W]
    by (simp add: L d markExpanded_fields d0)
  have nw: "lo_naturalWidth (?L ! i) = naturalWidthPixels ?d0"
    using positions_nth [OF ir, of "Num 0" cfg] redistribute_fields(2) [OF i, of W]
    by (simp add: L d markExpanded_fields)
  have ex: "lo_isExpanded (?L ! i) \<and> lo_width (?L ! i) = Num ?m"
    if lt: "jlt (lo_naturalWidth (?L ! i)) (Num ?m)"
  proof -
    from lt nw d0 have "jlt (naturalWidthPixels ?d0) (Num (minWidth ?d0))" by simp
    then have e: "isExpanded (?ds ! i)" "finalWidthPixels (?ds ! i) = Num ?m"
      using markExpanded_fields(3) [of ?d0 W] d0(1) by (simp_all add: d)
    from redistribute_expanded [OF i e(1), of W] e positions_nth [OF ir, of "Num 0" cfg]
    show ?thesis by (simp add: L)
  qed
  have keep: "redistribute W ?ds ! i = ?ds ! i" if "isExpanded (?ds ! i)"
    using i that by (rule redistribute_expanded)
  have fl: "sum_list (calculateLogarithmicMinWidths segs (totalSize segs) W cfg) \<le> W" if "0 < W"
    using ne that by (rule sum_minWidths_le)
  from len mw nw d0(2) ex keep fl show ?thesis by simp
qed

lemma of_int_sum_list_map: "real_of_int (sum_list (map f xs)) = sum_list (map (\<lambda>x. real_of_int (f x)) xs)"
  by (induction xs) simp_all

lemma sum_list_map_fst_zip:
  "length xs = length ys \<Longrightarrow> sum_list (map (\<lambda>z. f (fst z)) (zip xs ys)) = sum_list (map f xs)"
  for f :: "'a \<Rightarrow> real"
proof -
  assume "length xs = length ys"
  then have "map fst (zip xs ys) = xs" by simp
  then have "map f (map fst (zip xs ys)) = map f xs" by simp
  then show ?thesis by (simp add: comp_def)
qed

text \<open>Example levels: a byte range as a segment.\<close>

definition byte_range :: "int \<Rightarrow> int \<Rightarrow> segment" where
  "byte_range a b =
     \<lparr>seg_id = ''s'', seg_name = ''s'', seg_start = a, seg_end = b,
      rowGroupIndex = None, chunkIndex = None, pageIndex = None, columnPath = None\<rparr>"

lemma byte_range_simps:
  "seg_start (byte_range a b) = a" "seg_end (byte_range a b) = b"
  "seg_size (byte_range a b) = max 0 (b - a)"
  by (simp_all add: byte_range_def seg_size_def)

lemma valid_config_LAYOUT: "valid_config LAYOUT"
  by (simp add: valid_config_def LAYOUT_def)

lemmas layout_eval =
  calculateSegmentWidths_def segmentData_def totalSize_def Math_min_def Math_max_def
  calculateLogarithmicMinWidths_def adjustedBaseline_def clampedSizes_def logarithmicWidths_def
  logarithmicWidth_def LAYOUT_def byte_range_simps initialData_def markExpanded_def Let_def
  redistribute_def extraSpaceUsed_def availableSpace_def naturalSpaceForNonExpanded_def
  rescale_def jsum_def

text \<open>
  Two segments of 1 and 10 bytes that tile \<open>[0, 11)\<close>, in a container of 22 pixels. The
  logarithmic floors 5 and 25 exceed the container and are scaled to 11/3 and 55/3; the
  small segment (natural width 2) is expanded to its floor, the large one gets the rest.
\<close>

definition skewed_level :: "segment list" where
  "skewed_level = [byte_range 0 1, byte_range 1 11]"

lemma skewed_level_span: "totalSize skewed_level = 11" "sum_list (map seg_size skewed_level) = 11"
  by (simp_all add: skewed_level_def totalSize_def Math_min_def Math_max_def byte_range_simps)

lemma skewed_level_floors:
  "calculateLogarithmicMinWidths skewed_level 11 22 LAYOUT = [11 / 3, 55 / 3]"
  by (simp add: skewed_level_def layout_eval)

lemma skewed_level_layout:
  "map lo_width (calculateSegmentWidths skewed_level 22 LAYOUT) = [Num (11 / 3), Num (55 / 3)]"
  "map lo_naturalWidth (calculateSegmentWidths skewed_level 22 LAYOUT) = [Num 2, Num 20]"
  "map lo_isExpanded (calculateSegmentWidths skewed_level 22 LAYOUT) = [True, False]"
  "map isExpanded (segmentData skewed_level 22 LAYOUT) = [True, False]"
  by (simp_all add: skewed_level_def layout_eval)

theorem expanded_segments_get_floor_witness:
  "0 < length skewed_level
   \<and> jlt (lo_naturalWidth (calculateSegmentWidths skewed_level 22 LAYOUT ! 0))
         (Num (calculateLogarithmicMinWidths skewed_level (totalSize skewed_level) 22 LAYOUT ! 0))
   \<and> isExpanded (segmentData skewed_level 22 LAYOUT ! 0)
   \<and> lo_naturalWidth (calculateSegmentWidths skewed_level 22 LAYOUT ! 0) = Num 2
   \<and> calculateLogarithmicMinWidths skewed_level (totalSize skewed_level) 22 LAYOUT ! 0 = 11 / 3
   \<and> lo_isExpanded (calculateSegmentWidths skewed_level 22 LAYOUT ! 0)
   \<and> lo_width (calculateSegmentWidths skewed_level 22 LAYOUT ! 0) = Num (11 / 3)
   \<and> redistribute 22 (segmentData skewed_level 22 LAYOUT) ! 0 = segmentData skewed_level 22 LAYOUT ! 0
   \<and> sum_list (calculateLogarithmicMinWidths skewed_level (totalSize skewed_level) 22 LAYOUT) \<le> 22"
proof -
  have i: "0 < length skewed_level" by (simp add: skewed_level_def)
  have len: "length (calculateSegmentWidths skewed_level 22 LAYOUT) = 2"
    using skewed_level_layout(1) by (metis length_map list.size(3,4) One_nat_def Suc_1 Suc_eq_plus1)
  have n: "lo_naturalWidth (calculateSegmentWidths skewed_level 22 LAYOUT ! 0) = Num 2"
    using skewed_level_layout(2) len by (metis nth_map nth_Cons_0 zero_less_numeral)
  have m: "calculateLogarithmicMinWidths skewed_level (totalSize skewed_level) 22 LAYOUT ! 0 = 11 / 3"
    by (simp add: skewed_level_span skewed_level_floors)
  have lt: "jlt (lo_naturalWidth (calculateSegmentWidths skewed_level 22 LAYOUT ! 0))
         (Num (calculateLogarithmicMinWidths skewed_level (totalSize skewed_level) 22 LAYOUT ! 0))"
    by (simp add: n m)
  have "length (segmentData skewed_level 22 LAYOUT) = 2"
    by (simp add: segmentData_length skewed_level_def)
  then have e: "isExpanded (segmentData skewed_level 22 LAYOUT ! 0)"
    using skewed_level_layout(4) by (metis nth_map nth_Cons_0 zero_less_numeral)
  note T = expanded_segments_get_floor [OF i, of 22 LAYOUT]
  note T4 = T [THEN conjunct2, THEN conjunct2, THEN conjunct2, THEN conjunct1]
  note T5 = T [THEN conjunct2, THEN conjunct2, THEN conjunct2, THEN conjunct2, THEN conjunct1]
  note T6 = T [THEN conjunct2, THEN conjunct2, THEN conjunct2, THEN conjunct2, THEN conjunct2]
  from T4 lt have
    "lo_isExpanded (calculateSegmentWidths skewed_level 22 LAYOUT ! 0)
     \<and> lo_width (calculateSegmentWidths skewed_level 22 LAYOUT ! 0)
         = Num (calculateLogarithmicMinWidths skewed_level (totalSize skewed_level) 22 LAYOUT ! 0)"
    by (rule mp)
  with m have ex: "lo_isExpanded (calculateSegmentWidths skewed_level 22 LAYOUT ! 0)
     \<and> lo_width (calculateSegmentWidths skewed_level 22 LAYOUT ! 0) = Num (11 / 3)"
    by (simp only:)
  from T5 e have keep:
    "redistribute 22 (segmentData skewed_level 22 LAYOUT) ! 0 = segmentData skewed_level 22 LAYOUT ! 0"
    by (rule mp)
  have "(0::real) < 22" by simp
  with T6 have fl:
    "sum_list (calculateLogarithmicMinWidths skewed_level (totalSize skewed_level) 22 LAYOUT) \<le> 22"
    by (rule mp)
  show ?thesis
    by (intro conjI) (rule i lt e n m ex [THEN conjunct1] ex [THEN conjunct2] keep fl)+
qed



text \<open>
  A second level whose widths do not fill the container: one byte at each end of
  \<open>[0, 1000)\<close>. Both segments are expanded to the floor of 5 pixels, no segment is left
  to share the rest, the redistribution does not run, and the widths sum to 10.
\<close>

definition far_bytes_level :: "segment list" where
  "far_bytes_level = [byte_range 0 1, byte_range 999 1000]"

lemma far_bytes_level_widths:
  "map lo_width (calculateSegmentWidths far_bytes_level 1000 LAYOUT) = [Num 5, Num 5]"
  "map lo_isExpanded (calculateSegmentWidths far_bytes_level 1000 LAYOUT) = [True, True]"
  by (simp_all add: far_bytes_level_def layout_eval)

text \<open>
  A level of one segment of positive size: the natural width is the whole container, no
  floor exceeds it, and the segment gets the full width under every configuration.
\<close>

lemma single_segment_full_width:
  assumes "seg_start s < seg_end s" and "0 < W"
  shows "map lo_width (calculateSegmentWidths [s] W cfg) = [Num W]"
proof -
  let ?t = "seg_end s - seg_start s"
  from assms have t: "totalSize [s] = ?t" "seg_size s = ?t" "real_of_int ?t \<noteq> 0"
    by (simp_all add: totalSize_def Math_min_def Math_max_def seg_size_def)
  have b: "adjustedBaseline [s] W cfg \<le> W"
    using adjustedBaseline_le [of "[s]" W cfg] by simp
  have mw: "calculateLogarithmicMinWidths [s] ?t W cfg = [W]
          \<or> calculateLogarithmicMinWidths [s] ?t W cfg = [adjustedBaseline [s] W cfg]"
    by (simp add: calculateLogarithmicMinWidths_def clampedSizes_def Math_min_def Math_max_def)
  have d0: "naturalWidthPixels (initialData ?t W (s, m)) = Num W"
    "naturalWidthPercent (initialData ?t W (s, m)) = Num 100" for m
    using t by (simp_all add: initialData_def)
  have m: "markExpanded W (initialData ?t W (s, m))
           = (initialData ?t W (s, m))\<lparr>finalWidthPercent := Num 100, finalWidthPixels := Num W\<rparr>"
    if "m \<le> W" for m
    using that by (simp add: markExpanded_def Let_def d0) (simp add: initialData_def)
  from mw b obtain m where mm: "calculateLogarithmicMinWidths [s] ?t W cfg = [m]" "m \<le> W"
    by auto
  have ds: "segmentData [s] W cfg
            = [(initialData ?t W (s, m))\<lparr>finalWidthPercent := Num 100, finalWidthPixels := Num W\<rparr>]"
    by (simp add: segmentData_def t mm m)
  have "redistribute W (segmentData [s] W cfg) = segmentData [s] W cfg"
    by (simp add: ds redistribute_def extraSpaceUsed_def jsum_def initialData_def)
  then show ?thesis
    by (simp add: calculateSegmentWidths_def positions_widths) (simp add: ds)
qed

text \<open>
  C5 at an input where it fails: a level of one zero-size segment (such as a key-value
  entry without a byte length). The span is zero, the natural width is \<open>0 / 0\<close>, the
  comparison with the floor is false, and the returned width is \<open>NaN\<close>, not the
  container width.
\<close>

theorem single_zero_size_segment_gets_NaN:
  "map lo_width (calculateSegmentWidths [byte_range 10 10] 1000 LAYOUT) = [NaN]
   \<and> map lo_isExpanded (calculateSegmentWidths [byte_range 10 10] 1000 LAYOUT) = [False]
   \<and> map lo_width (calculateSegmentWidths [byte_range 10 11] 1000 LAYOUT) = [Num 1000]"
  by (simp add: layout_eval)

section \<open>The sum of the widths in rounded arithmetic\<close>

text \<open>
  The standard model of rounded arithmetic: \<open>fl x\<close> differs from \<open>x\<close> by a relative error
  of at most the unit roundoff \<open>u\<close>. A value \<open>x\<close> is \<open>near u k\<close> to \<open>y\<close> when it is \<open>y\<close>
  times a factor between \<open>\<rho>\<^sup>-\<^sup>k\<close> and \<open>\<rho>\<^sup>k\<close>, for \<open>\<rho> = (1 + u) / (1 - u)\<close>: the
  accumulated error of \<open>k\<close> roundings.
\<close>

definition rounding :: "(real \<Rightarrow> real) \<Rightarrow> real \<Rightarrow> bool" where
  "rounding fl u = (0 \<le> u \<and> u < 1 \<and> (\<forall>x. \<bar>fl x - x\<bar> \<le> u * \<bar>x\<bar>))"

definition rho :: "real \<Rightarrow> real" where
  "rho u = (1 + u) / (1 - u)"

definition in_band :: "real \<Rightarrow> nat \<Rightarrow> real \<Rightarrow> bool" where
  "in_band u k t = (1 / rho u ^ k \<le> t \<and> t \<le> rho u ^ k)"

definition near :: "real \<Rightarrow> nat \<Rightarrow> real \<Rightarrow> real \<Rightarrow> bool" where
  "near u k x y = (\<exists>t. in_band u k t \<and> x = y * t)"

lemma rho_ge1: "rounding fl u \<Longrightarrow> 1 \<le> rho u"
  by (simp add: rounding_def rho_def le_divide_eq)

lemma rho_pow_ge1: "rounding fl u \<Longrightarrow> 1 \<le> rho u ^ k"
  by (rule one_le_power) (rule rho_ge1)

lemma rho_pow_mono: "rounding fl u \<Longrightarrow> a \<le> b \<Longrightarrow> rho u ^ a \<le> rho u ^ b"
  by (rule power_increasing) (simp_all add: rho_ge1)

lemma band_pos: "rounding fl u \<Longrightarrow> in_band u k t \<Longrightarrow> 0 < t"
proof -
  assume r: "rounding fl u" and w: "in_band u k t"
  from rho_pow_ge1 [OF r, of k] have "0 < 1 / rho u ^ k" by simp
  also from w have "1 / rho u ^ k \<le> t" by (simp add: in_band_def)
  finally show ?thesis .
qed

lemma band_one: "rounding fl u \<Longrightarrow> in_band u k 1"
proof -
  assume r: "rounding fl u"
  from rho_pow_ge1 [OF r, of k] show ?thesis
    by (simp add: in_band_def divide_le_eq)
qed

lemma band_mono:
  assumes r: "rounding fl u" and ab: "a \<le> b" and w: "in_band u a t"
  shows "in_band u b t"
proof -
  from rho_pow_mono [OF r ab] have le: "rho u ^ a \<le> rho u ^ b" .
  from rho_pow_ge1 [OF r, of a] have pa: "0 < rho u ^ a" by simp
  from le pa have "1 / rho u ^ b \<le> 1 / rho u ^ a" by (simp add: frac_le)
  with w le show ?thesis by (simp add: in_band_def)
qed

lemma band_mult:
  assumes r: "rounding fl u" and s: "in_band u a s" and t: "in_band u b t"
  shows "in_band u (a + b) (s * t)"
proof -
  from rho_pow_ge1 [OF r, of a] have pa: "0 < rho u ^ a" by simp
  from rho_pow_ge1 [OF r, of b] have pb: "0 < rho u ^ b" by simp
  from band_pos [OF r s] have s0: "0 < s" .
  from band_pos [OF r t] have t0: "0 < t" .
  from s t have ls: "1 / rho u ^ a \<le> s" and us: "s \<le> rho u ^ a"
    and lt: "1 / rho u ^ b \<le> t" and ut: "t \<le> rho u ^ b"
    by (simp_all add: in_band_def)
  have "(1 / rho u ^ a) * (1 / rho u ^ b) \<le> s * t"
    using ls lt pa pb s0 by (intro mult_mono) simp_all
  moreover have "s * t \<le> rho u ^ a * rho u ^ b"
    using us ut s0 t0 by (intro mult_mono) simp_all
  ultimately show ?thesis by (simp add: in_band_def power_add)
qed




lemma fl_band:
  assumes r: "rounding fl u"
  shows "\<exists>t. in_band u 1 t \<and> fl x = x * t"
proof (cases "x = 0")
  case True
  from r have "\<bar>fl x - x\<bar> \<le> u * \<bar>x\<bar>" by (simp add: rounding_def)
  with True have "fl x = 0" by simp
  with True band_one [OF r] show ?thesis by auto
next
  case False
  from r have u: "0 \<le> u" "u < 1" and e: "\<bar>fl x - x\<bar> \<le> u * \<bar>x\<bar>"
    by (simp_all add: rounding_def)
  define t where "t = fl x / x"
  have "\<bar>t - 1\<bar> = \<bar>fl x - x\<bar> / \<bar>x\<bar>"
    using False by (simp add: t_def diff_divide_distrib flip: abs_divide)
  also have "\<dots> \<le> u" using e False by (simp add: divide_le_eq)
  finally have b: "1 - u \<le> t" "t \<le> 1 + u" by linarith+
  have "(1 - u) / (1 + u) \<le> (1 - u) / 1"
    using u by (intro divide_left_mono) simp_all
  then have lo: "1 / rho u \<le> 1 - u" using u by (simp add: rho_def)
  have "(1 + u) / 1 \<le> (1 + u) / (1 - u)"
    using u by (intro divide_left_mono) simp_all
  then have hi: "1 + u \<le> rho u" by (simp add: rho_def)
  from b lo hi have "in_band u 1 t" by (simp add: in_band_def)
  moreover have "fl x = x * t" using False by (simp add: t_def)
  ultimately show ?thesis by blast
qed

lemma near_refl: "rounding fl u \<Longrightarrow> near u k x x"
  using band_one by (fastforce simp: near_def)

lemma near_mono: "rounding fl u \<Longrightarrow> a \<le> b \<Longrightarrow> near u a x y \<Longrightarrow> near u b x y"
  using band_mono by (fastforce simp: near_def)

lemma near_trans:
  assumes r: "rounding fl u" and xy: "near u a x y" and yz: "near u b y z"
  shows "near u (a + b) x z"
proof -
  from xy obtain s where s: "in_band u a s" "x = y * s" by (auto simp: near_def)
  from yz obtain t where t: "in_band u b t" "y = z * t" by (auto simp: near_def)
  from band_mult [OF r t(1) s(1)] have "in_band u (a + b) (t * s)" by (simp add: add.commute)
  moreover from s t have "x = z * (t * s)" by simp
  ultimately show ?thesis unfolding near_def by blast
qed

lemma near_fl:
  assumes r: "rounding fl u" and xy: "near u k x y"
  shows "near u (Suc k) (fl x) y"
proof -
  from fl_band [OF r, of x] have "near u 1 (fl x) x" by (auto simp: near_def)
  from near_trans [OF r this xy] show ?thesis by simp
qed

lemma near_mult:
  assumes r: "rounding fl u" and x: "near u a x x'" and y: "near u b y y'"
  shows "near u (a + b) (x * y) (x' * y')"
proof -
  from x obtain s where s: "in_band u a s" "x = x' * s" by (auto simp: near_def)
  from y obtain t where t: "in_band u b t" "y = y' * t" by (auto simp: near_def)
  from s t have "x * y = x' * y' * (s * t)" by simp
  with band_mult [OF r s(1) t(1)] show ?thesis unfolding near_def by blast
qed


lemma near_nonneg:
  assumes r: "rounding fl u" and x: "near u k x y"
  shows "0 \<le> y \<Longrightarrow> 0 \<le> x" and "0 < y \<Longrightarrow> 0 < x" and "0 < x \<Longrightarrow> 0 < y"
proof -
  from x obtain t where t: "in_band u k t" "x = y * t" by (auto simp: near_def)
  from band_pos [OF r t(1)] have t0: "0 < t" .
  show "0 \<le> y \<Longrightarrow> 0 \<le> x" using t0 t(2) by simp
  show "0 < y \<Longrightarrow> 0 < x" using t0 t(2) by simp
  show "0 < x \<Longrightarrow> 0 < y" using t0 t(2) by (simp add: zero_less_mult_iff)
qed







text \<open>The records of a level of non-zero span after the first pass.\<close>

definition marked :: "real \<Rightarrow> real \<Rightarrow> rounded_data \<Rightarrow> bool" where
  "marked u W d =
     (r_naturalWidthPercent d = Num (number (r_naturalWidthPercent d))
      \<and> 0 \<le> number (r_naturalWidthPercent d)
      \<and> r_naturalWidthPixels d = Num (number (r_naturalWidthPixels d))
      \<and> 0 \<le> number (r_naturalWidthPixels d)
      \<and> r_finalWidthPercent d = Num (number (r_finalWidthPercent d))
      \<and> r_finalWidthPixels d = Num (number (r_finalWidthPixels d))
      \<and> (if r_isExpanded d
         then number (r_naturalWidthPixels d) < number (r_finalWidthPixels d)
              \<and> near u 2 (number (r_finalWidthPercent d))
                   (number (r_finalWidthPixels d) / W * 100)
         else r_finalWidthPercent d = r_naturalWidthPercent d
              \<and> r_finalWidthPixels d = r_naturalWidthPixels d))"

lemma near_fl_mult:
  assumes r: "rounding fl u"
  shows "near u 2 (fl (fl a * c)) (a * c)"
proof -
  have "near u 1 (fl a) a" using near_fl [OF r near_refl [OF r, of 0 a]] by simp
  from near_mult [OF r this near_refl [OF r, of 0 c]]
  have "near u 1 (fl a * c) (a * c)" by simp
  from near_fl [OF r this] show ?thesis by (simp add: numeral_2_eq_2)
qed

lemma marked_markExpanded:
  assumes r: "rounding fl u" and W: "0 < W" and t: "0 < t"
  shows "marked u W (markExpanded_fl fl W (initialData_fl fl t W (s, m)))"
    and "near u 2 (number (r_naturalWidthPixels (markExpanded_fl fl W (initialData_fl fl t W (s, m)))))
           (real_of_int (seg_size s) / real_of_int t * W)"
    and "r_isExpanded (markExpanded_fl fl W (initialData_fl fl t W (s, m)))
         \<longleftrightarrow> jlt (r_naturalWidthPixels (initialData_fl fl t W (s, m))) m"
proof -
  define a where "a = real_of_int (seg_size s) / real_of_int t"
  define p where "p = fl (fl a * 100)"
  define x where "x = fl (fl a * W)"
  let ?d = "initialData_fl fl t W (s, m)"
  from t have a: "0 \<le> a" by (simp add: a_def seg_size_def)
  have np: "near u 2 p (a * 100)" unfolding p_def by (rule near_fl_mult [OF r])
  have nx: "near u 2 x (a * W)" unfolding x_def by (rule near_fl_mult [OF r])
  from a have "0 \<le> a * 100" by simp
  with near_nonneg(1) [OF r np] have p0: "0 \<le> p" .
  from a W have "0 \<le> a * W" by simp
  with near_nonneg(1) [OF r nx] have x0: "0 \<le> x" .
  from t have init: "r_naturalWidthPercent ?d = Num p" "r_naturalWidthPixels ?d = Num x"
    "r_minWidth ?d = m" "\<not> r_isExpanded ?d"
    by (simp_all add: initialData_fl_def a_def p_def x_def fmul_def fdiv_def)
  show e: "r_isExpanded (markExpanded_fl fl W ?d) \<longleftrightarrow> jlt (r_naturalWidthPixels ?d) m"
    by (simp add: markExpanded_fl_def Let_def init)
  have nat: "r_naturalWidthPercent (markExpanded_fl fl W ?d) = Num p"
    "r_naturalWidthPixels (markExpanded_fl fl W ?d) = Num x"
    by (simp_all add: markExpanded_fl_def Let_def init)
  from nx show "near u 2 (number (r_naturalWidthPixels (markExpanded_fl fl W ?d)))
                  (real_of_int (seg_size s) / real_of_int t * W)"
    by (simp add: nat a_def)
  show "marked u W (markExpanded_fl fl W ?d)"
  proof (cases "jlt (Num x) m")
    case True
    then obtain mv where m: "m = Num mv" and lt: "x < mv" by (cases m) simp_all
    define q where "q = fl (fl (mv / W) * 100)"
    have nq: "near u 2 q (mv / W * 100)" unfolding q_def by (rule near_fl_mult [OF r])
    from W have mm: "fmul fl (fdiv fl m (Num W)) (Num 100) = Num q"
      by (simp add: m q_def fmul_def fdiv_def)
    from True have "r_isExpanded (markExpanded_fl fl W ?d)"
      "r_finalWidthPercent (markExpanded_fl fl W ?d) = Num q"
      "r_finalWidthPixels (markExpanded_fl fl W ?d) = m"
      by (simp_all add: markExpanded_fl_def Let_def init mm)
    then have fin: "r_isExpanded (markExpanded_fl fl W ?d)"
      "r_finalWidthPercent (markExpanded_fl fl W ?d) = Num q"
      "r_finalWidthPixels (markExpanded_fl fl W ?d) = Num mv"
      by (simp_all only: m)
    show ?thesis
      unfolding marked_def nat fin(2,3) using fin(1) p0 x0 lt nq by simp
  next
    case False
    then have fin: "\<not> r_isExpanded (markExpanded_fl fl W ?d)"
      "r_finalWidthPercent (markExpanded_fl fl W ?d) = Num p"
      "r_finalWidthPixels (markExpanded_fl fl W ?d) = Num x"
      by (simp_all add: markExpanded_fl_def Let_def init)
    show ?thesis
      unfolding marked_def nat fin(2,3) using fin(1) p0 x0 by simp
  qed
qed
















lemma segmentData_fl_marked:
  assumes r: "rounding fl u" and W: "0 < W" and span: "0 < totalSize segs"
    and d: "d \<in> set (segmentData_fl fl mws segs W)"
  shows "marked u W d"
proof -
  from d obtain s m where "d = markExpanded_fl fl W (initialData_fl fl (totalSize segs) W (s, m))"
    by (auto simp: segmentData_fl_def)
  then show ?thesis using marked_markExpanded(1) [OF r W span] by simp
qed



text \<open>
  With the identity for the rounding and the floors of the previous section, the rounded
  functions are the exact ones.
\<close>

definition rounded_of_data :: "segment_data \<Rightarrow> rounded_data" where
  "rounded_of_data d =
     \<lparr>r_segment = sd_segment d, r_naturalWidthPercent = naturalWidthPercent d,
      r_naturalWidthPixels = naturalWidthPixels d, r_finalWidthPercent = finalWidthPercent d,
      r_finalWidthPixels = finalWidthPixels d, r_isExpanded = isExpanded d,
      r_minWidth = Num (minWidth d)\<rparr>"

definition rounded_of_layout :: "segment_layout \<Rightarrow> rounded_layout" where
  "rounded_of_layout l =
     \<lparr>rl_segment = lo_segment l, rl_x = lo_x l, rl_y = lo_y l, rl_width = lo_width l,
      rl_height = lo_height l, rl_widthPercent = lo_widthPercent l,
      rl_isExpanded = lo_isExpanded l, rl_naturalWidth = lo_naturalWidth l,
      rl_minWidth = Num (lo_minWidth l)\<rparr>"

lemma rounded_id: "rounded id a = a"
  by (cases a) simp_all

lemma exact_arith:
  "fadd id = jadd" "fsub id = jsub" "fmul id = jmul" "fdiv id = jdiv"
  by (simp_all add: fun_eq_iff fadd_def fsub_def fmul_def fdiv_def rounded_id)

lemma exact_fsum: "fsum id = jsum"
  by (simp add: fun_eq_iff fsum_def jsum_def exact_arith)

lemmas exact_ops = exact_arith exact_fsum

lemma exact_initialData:
  "initialData_fl id t W (s, Num m) = rounded_of_data (initialData t W (s, m))"
  by (simp add: initialData_fl_def initialData_def rounded_of_data_def exact_ops)

lemma exact_markExpanded:
  "W \<noteq> 0 \<Longrightarrow> markExpanded_fl id W (rounded_of_data d) = rounded_of_data (markExpanded W d)"
  by (simp add: markExpanded_fl_def markExpanded_def rounded_of_data_def exact_ops Let_def)

lemma exact_segmentData:
  assumes "W \<noteq> 0"
  shows "segmentData_fl id (map Num (calculateLogarithmicMinWidths segs (totalSize segs) W cfg)) segs W
         = map rounded_of_data (segmentData segs W cfg)"
proof -
  have "initialData_fl id t W (s, Num m) = rounded_of_data (initialData t W (s, m))" for t s m
    by (rule exact_initialData)
  then have "map (initialData_fl id t W) (zip segs (map Num ms))
             = map rounded_of_data (map (initialData t W) (zip segs ms))" for t ms
    by (simp add: zip_map2 comp_def case_prod_beta)
  then show ?thesis
    using assms by (simp add: segmentData_fl_def segmentData_def exact_markExpanded comp_def)
qed

lemma exact_filters:
  "filter r_isExpanded (map rounded_of_data ds) = map rounded_of_data (filter isExpanded ds)"
  "filter (\<lambda>d. \<not> r_isExpanded d) (map rounded_of_data ds)
   = map rounded_of_data (filter (\<lambda>d. \<not> isExpanded d) ds)"
  by (simp_all add: filter_map comp_def rounded_of_data_def)

lemma exact_guards:
  "extraSpaceUsed_fl id (map rounded_of_data ds) = extraSpaceUsed ds"
  "availableSpace_fl id (map rounded_of_data ds) = availableSpace ds"
  "naturalSpaceForNonExpanded_fl id (map rounded_of_data ds) = naturalSpaceForNonExpanded ds"
  by (simp_all add: extraSpaceUsed_fl_def extraSpaceUsed_def availableSpace_fl_def
      availableSpace_def naturalSpaceForNonExpanded_fl_def naturalSpaceForNonExpanded_def
      exact_filters exact_ops comp_def)
     (simp_all add: rounded_of_data_def)

lemma exact_rescale:
  "rescale_fl id sc W (rounded_of_data d) = rounded_of_data (rescale sc W d)"
  by (simp add: rescale_fl_def rescale_def rounded_of_data_def exact_ops)

lemma exact_redistribute:
  "redistribute_fl id W (map rounded_of_data ds) = map rounded_of_data (redistribute W ds)"
  by (simp add: redistribute_fl_def redistribute_def exact_guards exact_ops exact_rescale comp_def)

lemma exact_positions:
  "calculateSegmentPositions_fl id x cfg (map rounded_of_data ds)
   = map rounded_of_layout (calculateSegmentPositions x cfg ds)"
  by (induction ds arbitrary: x) (simp_all add: rounded_of_data_def rounded_of_layout_def exact_ops)

lemma exact_calculateSegmentWidths:
  assumes "W \<noteq> 0"
  shows "calculateSegmentWidths_fl id
           (map Num (calculateLogarithmicMinWidths segs (totalSize segs) W cfg)) segs W cfg
         = map rounded_of_layout (calculateSegmentWidths segs W cfg)"
  using assms
  by (simp add: calculateSegmentWidths_fl_def calculateSegmentWidths_def exact_segmentData
      exact_redistribute exact_positions)




lemma rounding_exact: "rounding id 0"
  by (simp add: rounding_def)

lemma markExpanded_fl_fields:
  assumes r: "rounding fl u" and W: "0 < W" and t: "0 < t"
  shows "near u 2 (number (r_naturalWidthPercent (markExpanded_fl fl W (initialData_fl fl t W (s, m)))))
           (real_of_int (seg_size s) / real_of_int t * 100)"
    and "r_naturalWidthPixels (initialData_fl fl t W (s, m))
         = r_naturalWidthPixels (markExpanded_fl fl W (initialData_fl fl t W (s, m)))"
    and "r_isExpanded (markExpanded_fl fl W (initialData_fl fl t W (s, m))) \<Longrightarrow>
         r_finalWidthPixels (markExpanded_fl fl W (initialData_fl fl t W (s, m))) = m"
proof -
  let ?d = "initialData_fl fl t W (s, m)"
  from t have "r_naturalWidthPercent ?d
        = Num (fl (fl (real_of_int (seg_size s) / real_of_int t) * 100))"
    by (simp add: initialData_fl_def fmul_def fdiv_def)
  then have eq: "number (r_naturalWidthPercent (markExpanded_fl fl W ?d))
        = fl (fl (real_of_int (seg_size s) / real_of_int t) * 100)"
    by (simp add: markExpanded_fl_def Let_def)
  show "near u 2 (number (r_naturalWidthPercent (markExpanded_fl fl W ?d)))
           (real_of_int (seg_size s) / real_of_int t * 100)"
    unfolding eq by (rule near_fl_mult [OF r])
  show "r_naturalWidthPixels ?d = r_naturalWidthPixels (markExpanded_fl fl W ?d)"
    by (simp add: markExpanded_fl_def Let_def)
  show "r_isExpanded (markExpanded_fl fl W ?d) \<Longrightarrow> r_finalWidthPixels (markExpanded_fl fl W ?d) = m"
    by (simp add: markExpanded_fl_def Let_def initialData_fl_def split: if_splits)
qed

text \<open>
  A level with a gap: one byte at offset 0 and a hundred bytes at offset 900, in a
  container of 1000 pixels. The floors are 5 and 25; the first segment (natural width 1)
  is expanded, the second is not, and the redistribution runs under every rounding with
  \<open>\<rho>\<^sup>2 \<le> 2\<close>.
\<close>

definition ends_level :: "segment list" where
  "ends_level = [byte_range 0 1, byte_range 900 1000]"



text \<open>
  In exact arithmetic the redistribution runs exactly when some segment is expanded and
  some segment that is not expanded has a size above zero.
\<close>

lemma near_exact: "near 0 k x y \<longleftrightarrow> x = y"
  by (auto simp: near_def in_band_def rho_def)

lemma exact_redistributes:
  assumes W: "0 < W" and span: "0 < totalSize segs"
  shows "redistributes id (segmentData_fl id mws segs W) \<longleftrightarrow>
         (\<exists>d \<in> set (segmentData_fl id mws segs W). r_isExpanded d)
         \<and> (\<exists>d \<in> set (segmentData_fl id mws segs W).
               \<not> r_isExpanded d \<and> 0 < seg_size (r_segment d))"
proof -
  let ?ds = "segmentData_fl id mws segs W"
  let ?E = "filter r_isExpanded ?ds" and ?N = "filter (\<lambda>d. \<not> r_isExpanded d) ?ds"
  let ?t = "real_of_int (totalSize segs)"
  define fpct where "fpct d = number (r_finalWidthPercent d)" for d :: rounded_data
  define npct where "npct d = number (r_naturalWidthPercent d)" for d :: rounded_data
  have r: "rounding id 0" by (rule rounding_exact)
  have mk: "marked 0 W d" if "d \<in> set ?ds" for d
    using segmentData_fl_marked [OF r W span that] .
  have shape: "npct d = real_of_int (seg_size (r_segment d)) / ?t * 100
               \<and> number (r_naturalWidthPixels d) = real_of_int (seg_size (r_segment d)) / ?t * W"
    if "d \<in> set ?ds" for d
  proof -
    from that obtain s m
      where d: "d = markExpanded_fl id W (initialData_fl id (totalSize segs) W (s, m))"
      by (auto simp: segmentData_fl_def)
    have seg: "r_segment d = s" by (simp add: d markExpanded_fl_def Let_def initialData_fl_def)
    from markExpanded_fl_fields(1) [OF r W span, of s m] marked_markExpanded(2) [OF r W span, of s m]
    show ?thesis by (simp add: near_exact d [symmetric] seg npct_def)
  qed
  have gain: "0 < fpct d - npct d" if "d \<in> set ?E" for d
  proof -
    from that have d: "d \<in> set ?ds" and e: "r_isExpanded d" by simp_all
    from mk [OF d] e have lt: "number (r_naturalWidthPixels d) < number (r_finalWidthPixels d)"
      and q: "fpct d = number (r_finalWidthPixels d) / W * 100"
      by (simp_all add: marked_def near_exact fpct_def)
    from shape [OF d] lt
    have "real_of_int (seg_size (r_segment d)) / ?t * W < number (r_finalWidthPixels d)" by simp
    then have "real_of_int (seg_size (r_segment d)) / ?t < number (r_finalWidthPixels d) / W"
      using W by (simp add: pos_less_divide_eq)
    then have "real_of_int (seg_size (r_segment d)) / ?t * 100
               < number (r_finalWidthPixels d) / W * 100"
      by (rule mult_strict_right_mono) simp
    moreover from shape [OF d]
    have "npct d = real_of_int (seg_size (r_segment d)) / ?t * 100" by (rule conjunct1)
    ultimately show ?thesis by (simp only: q diff_gt_0_iff_gt)
  qed
  have "jsub (r_finalWidthPercent d) (r_naturalWidthPercent d) = Num (fpct d - npct d)"
    if "d \<in> set ?E" for d
  proof -
    from that have "marked 0 W d" using mk by simp
    then have "r_finalWidthPercent d = Num (fpct d)" "r_naturalWidthPercent d = Num (npct d)"
      by (simp_all add: marked_def fpct_def npct_def)
    then show ?thesis by simp
  qed
  then have "map (\<lambda>d. jsub (r_finalWidthPercent d) (r_naturalWidthPercent d)) ?E
             = map (\<lambda>d. Num (fpct d - npct d)) ?E"
    by (rule map_cong [OF refl])
  then have extra: "extraSpaceUsed_fl id ?ds = Num (sum_list (map (\<lambda>d. fpct d - npct d) ?E))"
    by (simp only: extraSpaceUsed_fl_def exact_ops jsum_Num)
  have "r_naturalWidthPercent d = Num (npct d)" if "d \<in> set ?N" for d
    using that mk by (simp add: marked_def npct_def)
  then have "map r_naturalWidthPercent ?N = map (\<lambda>d. Num (npct d)) ?N"
    by (rule map_cong [OF refl])
  then have nat: "naturalSpaceForNonExpanded_fl id ?ds = Num (sum_list (map npct ?N))"
    by (simp only: naturalSpaceForNonExpanded_fl_def exact_ops jsum_Num)
  have g1: "0 < sum_list (map (\<lambda>d. fpct d - npct d) ?E) \<longleftrightarrow> (\<exists>d \<in> set ?ds. r_isExpanded d)"
  proof (cases "?E = []")
    case True
    then show ?thesis by (simp add: filter_empty_conv)
  next
    case False
    with gain have "sum_list (map (\<lambda>d. 0) ?E) < sum_list (map (\<lambda>d. fpct d - npct d) ?E)"
      by (intro sum_list_strict)
    moreover from False have "\<exists>d \<in> set ?ds. r_isExpanded d" by (simp add: filter_empty_conv)
    ultimately show ?thesis by simp
  qed
  have nn: "0 \<le> npct d" if "d \<in> set ?ds" for d
    using mk [OF that] by (simp add: marked_def npct_def)
  have pos: "0 < npct d \<longleftrightarrow> 0 < seg_size (r_segment d)" if "d \<in> set ?ds" for d
    using shape [OF that] W span by (simp add: zero_less_mult_iff zero_less_divide_iff)
  have "sum_list (map npct ?N) = 0 \<longleftrightarrow> (\<forall>x \<in> set (map npct ?N). x = 0)"
    by (rule sum_list_nonneg_eq_0_iff) (use nn in auto)
  moreover have "0 \<le> sum_list (map npct ?N)"
    by (rule sum_list_nonneg) (use nn in auto)
  ultimately have "0 < sum_list (map npct ?N) \<longleftrightarrow> (\<exists>d \<in> set ?N. npct d \<noteq> 0)"
    by auto
  also have "\<dots> \<longleftrightarrow> (\<exists>d \<in> set ?ds. \<not> r_isExpanded d \<and> 0 < seg_size (r_segment d))"
    using nn pos by (auto simp: less_le)
  finally have g2: "0 < sum_list (map npct ?N)
        \<longleftrightarrow> (\<exists>d \<in> set ?ds. \<not> r_isExpanded d \<and> 0 < seg_size (r_segment d))" .
  show ?thesis by (simp only: redistributes_def extra nat jlt.simps g1 g2)
qed

text \<open>
  In exact arithmetic, with the floors of \<open>calculateLogarithmicMinWidths\<close> under a valid
  configuration, a level whose sizes sum to its span is always in one of the two cases:
  the floors are not negative and sum to at most the container width, so the expanded
  segments cannot take the whole of it.
\<close>

lemma sum_list_strict_one:
  fixes f g :: "'a \<Rightarrow> real"
  assumes "\<And>x. x \<in> set xs \<Longrightarrow> f x \<le> g x" and "\<exists>x \<in> set xs. f x < g x"
  shows "sum_list (map f xs) < sum_list (map g xs)"
  using assms
proof (induction xs)
  case Nil
  then show ?case by simp
next
  case (Cons a xs)
  have le: "sum_list (map f xs) \<le> sum_list (map g xs)"
    using Cons.prems(1) by (intro sum_list_mono) simp
  have a: "f a \<le> g a" using Cons.prems(1) by simp
  show ?case
  proof (cases "f a < g a")
    case True
    with le show ?thesis by simp
  next
    case False
    with Cons.prems(2) have "\<exists>x \<in> set xs. f x < g x" by auto
    with Cons.IH Cons.prems(1) have "sum_list (map f xs) < sum_list (map g xs)" by simp
    with a show ?thesis by simp
  qed
qed

lemma tiling_exact_cases:
  assumes ne: "segs \<noteq> []" and W: "0 < W" and cfg: "valid_config cfg"
    and span: "0 < totalSize segs" and tile: "sum_list (map seg_size segs) = totalSize segs"
  shows "redistributes id
           (segmentData_fl id (map Num (calculateLogarithmicMinWidths segs (totalSize segs) W cfg))
              segs W)
         \<or> (\<forall>d \<in> set (segmentData_fl id
                          (map Num (calculateLogarithmicMinWidths segs (totalSize segs) W cfg))
                          segs W). \<not> r_isExpanded d)"
proof (rule disjCI)
  let ?t = "totalSize segs"
  let ?mw = "calculateLogarithmicMinWidths segs ?t W cfg"
  let ?ds = "segmentData_fl id (map Num ?mw) segs W"
  let ?g = "\<lambda>z. markExpanded_fl id W (initialData_fl id ?t W (fst z, Num (snd z)))"
  let ?np = "\<lambda>z. real_of_int (seg_size (fst z)) / real_of_int ?t * W"
  assume "\<not> (\<forall>d \<in> set ?ds. \<not> r_isExpanded d)"
  then have ex: "\<exists>d \<in> set ?ds. r_isExpanded d" by simp
  have r: "rounding id 0" by (rule rounding_exact)
  have len: "length segs = length ?mw" by (simp add: length_minWidths)
  have ds: "?ds = map ?g (zip segs ?mw)"
    by (simp add: segmentData_fl_def zip_map2 comp_def case_prod_beta)
  have seg: "r_segment (?g z) = fst z" for z
    by (simp add: markExpanded_fl_def Let_def initialData_fl_def)
  have np: "number (r_naturalWidthPixels (?g z)) = ?np z" for z
    using marked_markExpanded(2) [OF r W span, of "fst z" "Num (snd z)"] by (simp add: near_exact)
  have e: "r_isExpanded (?g z) \<longleftrightarrow> ?np z < snd z" for z
  proof -
    from marked_markExpanded(1) [OF r W span, of "fst z" "Num (snd z)"]
    have "r_naturalWidthPixels (?g z) = Num (?np z)" by (simp add: marked_def np)
    with marked_markExpanded(3) [OF r W span, of "fst z" "Num (snd z)"]
         markExpanded_fl_fields(2) [OF r W span, of "fst z" "Num (snd z)"]
    show ?thesis by simp
  qed
  show "redistributes id ?ds"
  proof (rule ccontr)
    assume "\<not> redistributes id ?ds"
    with ex have none: "\<not> (\<exists>d \<in> set ?ds. \<not> r_isExpanded d \<and> 0 < seg_size (r_segment d))"
      by (simp add: exact_redistributes [OF W span])
    have le: "?np z \<le> snd z" if z: "z \<in> set (zip segs ?mw)" for z
    proof (cases "r_isExpanded (?g z)")
      case True
      then show ?thesis by (simp add: e)
    next
      case False
      from z have "?g z \<in> set ?ds" by (simp add: ds)
      with none False have "\<not> 0 < seg_size (fst z)" by (auto simp: seg)
      then have "seg_size (fst z) = 0" by (simp add: seg_size_def)
      moreover have "snd z \<in> set ?mw"
        using z set_zip_rightD [of "fst z" "snd z" segs ?mw] by simp
      with ne W cfg have "0 \<le> snd z" by (rule minWidths_nonneg)
      ultimately show ?thesis by simp
    qed
    from ex obtain z where "z \<in> set (zip segs ?mw)" "r_isExpanded (?g z)" by (auto simp: ds)
    then have "\<exists>z \<in> set (zip segs ?mw). ?np z < snd z" by (auto simp: e)
    with le have "sum_list (map ?np (zip segs ?mw)) < sum_list (map snd (zip segs ?mw))"
      by (rule sum_list_strict_one)
    moreover have "sum_list (map ?np (zip segs ?mw))
          = sum_list (map (\<lambda>s. real_of_int (seg_size s) / real_of_int ?t * W) segs)"
      using len by (rule sum_list_map_fst_zip)
    moreover have "sum_list (map (\<lambda>s. real_of_int (seg_size s) / real_of_int ?t * W) segs)
          = sum_list (map (\<lambda>s. real_of_int (seg_size s)) segs) / real_of_int ?t * W"
      by (rule sum_list_div_mult)
    moreover have "sum_list (map (\<lambda>s. real_of_int (seg_size s)) segs) / real_of_int ?t * W = W"
      using tile span by (simp add: of_int_sum_list_map [symmetric])
    moreover have "map snd (zip segs ?mw) = ?mw" using len by simp
    moreover have "sum_list ?mw \<le> W" using ne W by (rule sum_minWidths_le)
    ultimately show False by simp
  qed
qed





lemma ends_level_floors:
  "calculateLogarithmicMinWidths ends_level (totalSize ends_level) 1000 LAYOUT = [5, 25]"
proof -
  have "log 10 100 = log 10 (10 ^ 2)" by simp
  also have "\<dots> = 2" by (subst log_nat_power) simp_all
  finally have l: "log 10 100 = 2" .
  show ?thesis
    by (simp add: ends_level_def calculateLogarithmicMinWidths_def adjustedBaseline_def
        clampedSizes_def logarithmicWidths_def logarithmicWidth_def LAYOUT_def byte_range_simps
        totalSize_def Math_min_def Math_max_def Let_def l)
qed


end
